theory Spec2Isabelle
  imports Main
begin

text \<open>
  A shallow embedding of the scope and naming core of the transpiler (the module
  \<open>core\<close>), of the prototype wiring of its class lowering and of its parameter lowering
  (\<open>transpiler/functions.js\<close>). JavaScript objects become records and datatypes, the
  fields they mutate become a state that every function takes and returns, and every
  \<open>throw\<close> becomes the left summand of a result. The model comes first, then example
  programs, then the properties.
\<close>

section \<open>Strings, the name registry and failures\<close>

text \<open>
  The core keeps every declared and referenced name of the unit in \<open>allIdentifiers\<close>, a
  \<open>stringset\<close> (an npm package: a finite set of strings with \<open>has\<close>, \<open>add\<close> and
  \<open>addMany\<close>). It is modelled as the list of its members in insertion order; only
  membership is ever observed.
\<close>

type_synonym stringset = "string list"

definition ss_has :: "stringset \<Rightarrow> string \<Rightarrow> bool" where
  "ss_has s x = (x \<in> set s)"

definition ss_add :: "stringset \<Rightarrow> string \<Rightarrow> stringset" where
  "ss_add s x = (if x \<in> set s then s else s @ [x])"

fun ss_addMany :: "stringset \<Rightarrow> string list \<Rightarrow> stringset" where
  "ss_addMany s [] = s"
| "ss_addMany s (x # xs) = ss_addMany (ss_add s x) xs"

text \<open>
  Failures. \<open>assert(..)\<close> of node's \<open>assert\<close> module throws (\<open>AssertionError\<close>); a
  property read on \<open>null\<close> or \<open>undefined\<close> throws a \<open>TypeError\<close>. The remaining
  constructors are the calls \<open>error(line, template, name)\<close>.
\<close>

text \<open>
  Modelled from the spec: \<open>lib/error\<close> (the function \<open>error\<close>) is not among the sources.
  Section 7 of the specification names one failure kind per message template and makes
  each of them fatal for the unit, so a call of \<open>error\<close> is a failure value that carries
  the line and the substituted name:
  \<^item> "reference to unknown global variable {0}" is \<open>UnknownReferenceError\<close>,
  \<^item> "{0} is referenced before its declaration" is \<open>UseBeforeDeclarationError\<close>,
  \<^item> "can't assign to const variable {0}" is \<open>ConstReassignmentError\<close>,
  \<^item> "can't transform closure. {0} is defined outside closure, inside loop" is
    \<open>UnsupportedLoopClosureError\<close>,
  \<^item> "function parameter '{0}' defined with default value refered to scope variable with
    the same name '{0}'" is \<open>SelfReferentialDefaultError\<close>.
\<close>

datatype error =
    AssertionError
  | TypeError
  | UnknownReferenceError int string
  | UseBeforeDeclarationError int string
  | ConstReassignmentError int string
  | UnsupportedLoopClosureError int string
  | SelfReferentialDefaultError int string

text \<open>
  \<open>name + "$" + cnt\<close> prints the counter in decimal. The counter is a JavaScript
  number that starts at 0 and is incremented by one; it is modelled as a natural number
  (a double counts exactly up to \<open>2^53\<close>, far more names than a registry can hold).
\<close>

definition digit :: "nat \<Rightarrow> char" where
  "digit d = ''0123456789'' ! d"

fun numberToString :: "nat \<Rightarrow> string" where
  "numberToString n =
     (if n < 10 then [digit n] else numberToString (n div 10) @ [digit (n mod 10)])"

definition genName :: "string \<Rightarrow> nat \<Rightarrow> string" where
  "genName name cnt = name @ ''$'' @ numberToString cnt"

declare numberToString.simps [simp del]

lemma digit_inj: "a < 10 \<Longrightarrow> b < 10 \<Longrightarrow> digit a = digit b \<Longrightarrow> a = b"
proof -
  assume a: "a < 10" and b: "b < 10" and e: "digit a = digit b"
  have d: "distinct ''0123456789''" by simp
  have "a < length ''0123456789''" "b < length ''0123456789''" using a b by simp_all
  with d e show "a = b" unfolding digit_def by (simp only: nth_eq_iff_index_eq)
qed

lemma numberToString_nonempty: "numberToString n \<noteq> []"
  by (subst numberToString.simps) simp

lemma numberToString_inj: "numberToString n = numberToString m \<Longrightarrow> n = m"
proof (induction n arbitrary: m rule: less_induct)
  case (less n)
  show ?case
  proof (cases "n < 10")
    case n10: True
    show ?thesis
    proof (cases "m < 10")
      case True
      with n10 less.prems show ?thesis
        by (simp add: numberToString.simps [of n] numberToString.simps [of m] digit_inj)
    next
      case False
      with n10 less.prems numberToString_nonempty [of "m div 10"] show ?thesis
        by (simp add: numberToString.simps [of n] numberToString.simps [of m])
    qed
  next
    case n10: False
    show ?thesis
    proof (cases "m < 10")
      case True
      with n10 less.prems numberToString_nonempty [of "n div 10"] show ?thesis
        by (simp add: numberToString.simps [of n] numberToString.simps [of m])
    next
      case False
      with n10 less.prems
      have e: "numberToString (n div 10) = numberToString (m div 10)"
        and d: "digit (n mod 10) = digit (m mod 10)"
        by (simp_all add: numberToString.simps [of n] numberToString.simps [of m])
      have "n div 10 < n" using n10 by simp
      from less.IH [OF this e] have q: "n div 10 = m div 10" .
      have r: "n mod 10 = m mod 10" using d by (simp add: digit_inj)
      have "n = 10 * (n div 10) + n mod 10" by simp
      also have "\<dots> = 10 * (m div 10) + m mod 10" using q r by simp
      also have "\<dots> = m" by simp
      finally show ?thesis .
    qed
  qed
qed

lemma genName_inj: "genName name a = genName name b \<Longrightarrow> a = b"
  by (simp add: genName_def numberToString_inj)

lemma inj_genName: "inj (genName name)"
  by (rule injI) (rule genName_inj)


section \<open>Syntax nodes, scopes and the state of the core\<close>

text \<open>
  A syntax node is a JavaScript object with a \<open>type\<close> tag, a \<open>range\<close>, a line, and
  children; the scope pass adds the back-reference \<open>$parent\<close>. The objects form a cyclic
  graph (a child points to its parent, the parent to the child), so a node is modelled
  from two directions:
  \<^item> \<open>node_info\<close> holds a node's own properties. A child that the code only compares by
    identity (\<open>parent.id === node\<close>) is recorded by the child's identity \<open>nid\<close>; a child
    whose properties are read (a parameter, a default value, the rest parameter) is a
    \<open>child\<close> record of those properties;
  \<^item> \<open>node\<close> is a node together with the chain of its ancestors, so that \<open>n.$parent\<close>
    is the selector \<open>nparent\<close> and a walk to the root is structural recursion.
  Object identity (\<open>===\<close>) on nodes is equality of the model values; different objects of
  one tree carry different \<open>nid\<close>. The code reads \<open>node.name\<close> of a node only after
  \<open>isReference(node)\<close>, that is of an identifier, so \<open>nname\<close> is a string; the \<open>name\<close> of
  a child may be compared where the child is a pattern and has none, so \<open>cname\<close> is \<open>None\<close>
  for \<open>undefined\<close>. A missing \<open>type\<close> (the object \<open>{}\<close> of the ambient scope) is the empty
  string, which no comparison of the code matches.
\<close>

record child =
  cid :: nat
  ctype :: string
  cname :: "string option"
  crange0 :: int
  crange1 :: int

record node_info =
  nid :: nat
  ntype :: string
  nname :: string
  range0 :: int
  range1 :: int
  line :: int
  computed :: bool
  id_ref :: "nat option"
  property_ref :: "nat option"
  key_ref :: "nat option"
  label_ref :: "nat option"
  param_ref :: "nat option"
  left_ref :: "nat option"
  argument_ref :: "nat option"
  params :: "child list"
  defaults :: "child list"
  rest :: "child option"
  body_range0 :: "int option"

datatype node = Node (ninfo: node_info) (nparent: "node option")

text \<open>
  Modelled from the spec: \<open>lib/scope\<close> (the class \<open>Scope\<close>) is not among the sources.
  Section 3 of the specification gives a scope its kind, its owning node, its parent and a
  map from names to declarations; a declaration has a kind, the position from which it
  becomes visible and an optional origin declarator (here the declarator's identity). The
  tree structure (kind, node, parent) is fixed once the scopes are
  built, so a scope is modelled with the chain of its ancestors; what the passes mutate
  later (the declarations, the mark \<open>$__path\<close>) lives in the state below, addressed by the
  scope's identity \<open>sid\<close>.
\<close>

datatype scope = Scope (sid: nat) (kind: string) (snode: node) (sparent: "scope option")

record decl =
  dkind :: string
  from_pos :: "int option"
  declarator :: "nat option"

text \<open>
  An edit handed to the edit sink by \<open>alter.insert(pos, text, options)\<close>. The options
  object is shared between the sink's record and the caller, who may later set
  \<open>options.inactive = true\<close>: it is an address into the table \<open>inactive\<close> of the state.
\<close>

record edit =
  epos :: int
  estr :: string
  eoptions :: "nat option"

record bubbledVariable =
  bname :: string
  bvalue :: string
  bisFunction :: bool
  bscope :: scope
  changesOptions :: nat

record options =
  disallowVars :: bool
  disallowUnknownReferences :: bool

text \<open>
  The state: the fields of the \<open>core\<close> object, the module variable \<open>UUID\<close>, and the
  mutable properties of the objects the core works on (\<open>scope.decls\<close>, \<open>scope.$__path\<close>,
  \<open>node.$scope\<close>, \<open>node.$refToScope\<close>, the options objects of edits), each a table from the
  object's identity. \<open>null\<close> and \<open>undefined\<close> are both \<open>None\<close>. The field
  \<open>functions\<close> is written \<open>functions'\<close>, the plain word being a keyword of Isabelle.
\<close>

record core =
  allIdentifiers :: stringset
  outermostLoop :: "node option"
  functions' :: "node list"
  bubbledVariables :: "string \<rightharpoonup> bubbledVariable"
  isInit :: bool
  alter :: "edit list"
  src :: string
  opts :: options
  UUID :: nat
  decls :: "nat \<Rightarrow> string \<rightharpoonup> decl"
  path_mark :: "nat \<Rightarrow> nat option"
  scope_of :: "nat \<Rightarrow> scope option"
  refToScope :: "nat \<Rightarrow> scope option"
  inactive :: "nat \<Rightarrow> bool"
  next_object :: nat

section \<open>Lifecycle: reset and setup\<close>

text \<open>
  The methods \<open>reset\<close> and \<open>setup\<close> of the core (\<open>setup\<close> is a keyword of Isabelle,
  hence the prefix). \<open>__isInit\<close> is the field \<open>isInit\<close>; before the first \<open>reset\<close> the
  fields it assigns are \<open>undefined\<close>, and nothing reads them before \<open>setup\<close> has run.
\<close>

definition core_reset :: "core \<Rightarrow> core" where
  "core_reset c = c\<lparr>allIdentifiers := [], outermostLoop := None, functions' := [],
                bubbledVariables := Map.empty\<rparr>"

definition core_setup :: "edit list \<Rightarrow> node \<Rightarrow> options \<Rightarrow> string \<Rightarrow> core \<Rightarrow> core" where
  "core_setup alter' ast options' src' c =
     (let c1 = (if \<not> isInit c then (core_reset c)\<lparr>isInit := True\<rparr> else c)
      in c1\<lparr>alter := alter', src := src', opts := options'\<rparr>)"

section \<open>Fresh names: unique\<close>

text \<open>
  The loop \<open>for (cnt = 0; ; cnt++)\<close> of \<open>unique\<close> has no exit but the \<open>return\<close>. It
  terminates because the registry and the filter are finite and the candidates
  \<open>name$0, name$1, ...\<close> are pairwise different: the measure is the number of candidates
  from \<open>cnt\<close> on that are taken.
\<close>

definition taken :: "stringset \<Rightarrow> stringset option \<Rightarrow> string \<Rightarrow> bool" where
  "taken ids additionalFilter g =
     (\<not> (\<not> ss_has ids g \<and> (additionalFilter = None \<or> \<not> ss_has (the additionalFilter) g)))"

lemma finite_taken_from:
  "finite {k. cnt \<le> k \<and> taken ids flt (genName name k)}"
proof -
  let ?S = "set ids \<union> (case flt of None \<Rightarrow> {} | Some f \<Rightarrow> set f)"
  have "finite (genName name -` ?S)"
    by (rule finite_vimageI [OF _ inj_genName]) (simp split: option.split)
  moreover have "{k. cnt \<le> k \<and> taken ids flt (genName name k)} \<subseteq> genName name -` ?S"
    by (auto simp: taken_def ss_has_def split: option.split)
  ultimately show ?thesis by (rule rev_finite_subset)
qed

function unique_loop :: "stringset \<Rightarrow> stringset option \<Rightarrow> string \<Rightarrow> nat \<Rightarrow> string" where
  "unique_loop ids additionalFilter name cnt =
     (if \<not> taken ids additionalFilter (genName name cnt) then genName name cnt
      else unique_loop ids additionalFilter name (cnt + 1))"
  by pat_completeness auto
termination
proof (relation "measure (\<lambda>(ids, flt, name, cnt).
         card {k. cnt \<le> k \<and> taken ids flt (genName name k)})")
  show "wf (measure (\<lambda>(ids, flt, name, cnt).
         card {k. cnt \<le> k \<and> taken ids flt (genName name k)}))" by simp
next
  fix ids :: stringset and flt :: "stringset option" and name :: string and cnt :: nat
  assume t: "\<not> \<not> taken ids flt (genName name cnt)"
  have "cnt \<in> {k. cnt \<le> k \<and> taken ids flt (genName name k)}"
    and "cnt \<notin> {k. cnt + 1 \<le> k \<and> taken ids flt (genName name k)}"
    using t by simp_all
  moreover have "{k. cnt + 1 \<le> k \<and> taken ids flt (genName name k)}
          \<subseteq> {k. cnt \<le> k \<and> taken ids flt (genName name k)}"
    by auto
  ultimately have "{k. cnt + 1 \<le> k \<and> taken ids flt (genName name k)}
          \<subset> {k. cnt \<le> k \<and> taken ids flt (genName name k)}"
    by blast
  then have "card {k. cnt + 1 \<le> k \<and> taken ids flt (genName name k)}
          < card {k. cnt \<le> k \<and> taken ids flt (genName name k)}"
    by (rule psubset_card_mono [OF finite_taken_from])
  then show "((ids, flt, name, cnt + 1), (ids, flt, name, cnt))
          \<in> measure (\<lambda>(ids, flt, name, cnt).
               card {k. cnt \<le> k \<and> taken ids flt (genName name k)})"
    by simp
qed

declare unique_loop.simps [simp del]

definition unique :: "core \<Rightarrow> string \<Rightarrow> bool \<Rightarrow> stringset option \<Rightarrow> error + (string \<times> core)" where
  "unique c name newVariable additionalFilter =
     (if \<not> (newVariable \<or> ss_has (allIdentifiers c) name) then Inl AssertionError
      else
        let g = unique_loop (allIdentifiers c) additionalFilter name 0
        in Inr (g, if newVariable then c\<lparr>allIdentifiers := ss_add (allIdentifiers c) g\<rparr> else c))"


section \<open>Scopes and the predicates on nodes\<close>

definition isConstLet :: "string option \<Rightarrow> bool" where
  "isConstLet k = (k = Some ''const'' \<or> k = Some ''let'')"

definition isFunction :: "node_info \<Rightarrow> bool" where
  "isFunction n = (ntype n = ''FunctionDeclaration'' \<or> ntype n = ''FunctionExpression''
                    \<or> ntype n = ''ArrowFunctionExpression'')"

definition isLoop :: "node_info \<Rightarrow> bool" where
  "isLoop n = (ntype n = ''ForStatement'' \<or> ntype n = ''ForInStatement''
                \<or> ntype n = ''WhileStatement'' \<or> ntype n = ''DoWhileStatement'')"

text \<open>
  \<open>isReference\<close>: the chain of \<open>&&\<close> reaches \<open>isFunction(parent)\<close> when the node is an
  identifier without \<open>$refToScope\<close> and none of the five parent types matches; for a node
  without parent that call reads \<open>type\<close> of \<open>null\<close> and throws.
\<close>

definition isReference :: "core \<Rightarrow> node \<Rightarrow> error + bool" where
  "isReference c node =
     (let me = Some (nid (ninfo node)) in
      if refToScope c (nid (ninfo node)) \<noteq> None then Inr True
      else if ntype (ninfo node) \<noteq> ''Identifier'' then Inr False
      else case nparent node of
        None \<Rightarrow> Inl TypeError
      | Some (Node parent _) \<Rightarrow> Inr (
            \<not> (ntype parent = ''VariableDeclarator'' \<and> id_ref parent = me)
          \<and> \<not> (ntype parent = ''MemberExpression'' \<and> computed parent = False
                \<and> property_ref parent = me)
          \<and> \<not> (ntype parent = ''Property'' \<and> key_ref parent = me)
          \<and> \<not> (ntype parent = ''LabeledStatement'' \<and> label_ref parent = me)
          \<and> \<not> (ntype parent = ''CatchClause'' \<and> param_ref parent = me)
          \<and> \<not> (isFunction parent \<and> id_ref parent = me)
          \<and> \<not> (isFunction parent \<and> nid (ninfo node) \<in> set (map cid (params parent)))))"

definition isLvalue :: "core \<Rightarrow> node \<Rightarrow> error + bool" where
  "isLvalue c node =
     (case isReference c node of
        Inl e \<Rightarrow> Inl e
      | Inr False \<Rightarrow> Inr False
      | Inr True \<Rightarrow>
          (case nparent node of
             None \<Rightarrow> Inl TypeError
           | Some (Node parent _) \<Rightarrow> Inr (
                 (ntype parent = ''AssignmentExpression'' \<and> left_ref parent = Some (nid (ninfo node)))
               \<or> (ntype parent = ''UpdateExpression''
                    \<and> argument_ref parent = Some (nid (ninfo node))))))"

text \<open>
  Modelled from the spec: the methods of \<open>Scope\<close> (\<open>lib/scope\<close> is not among the sources).
  \<^item> \<open>closestHoistScope\<close>: the nearest scope of kind hoist, from the scope itself outward;
    \<open>None\<close> when the chain has none (the walk would read \<open>kind\<close> of \<open>null\<close>).
  \<^item> \<open>lookup\<close>: "walks enclosing scopes outward to find the declaring scope"; \<open>None\<close> is
    the unresolved global.
  \<^item> \<open>getKind\<close>, \<open>getFromPos\<close>: the kind of the scope's declaration of the name and "the
    position from which it becomes visible".
  \<^item> \<open>hasFunctionScopeBetween\<close>: whether "a function boundary separates" the scope from
    the outer one: walking outward from the scope of the use, a scope owned by a function
    comes before the outer scope. \<open>None\<close> when the outer scope is not on the way.
  \<^item> \<open>add(name, kind, node, referableFromPos, originalDeclarator)\<close>: records a
    declaration in the scope's map, with the position and the declarator it is passed
    (\<open>None\<close> for an argument that the call leaves out).
\<close>

fun closestHoistScope :: "scope \<Rightarrow> scope option" where
  "closestHoistScope (Scope i k n p) =
     (if k = ''hoist'' then Some (Scope i k n p)
      else case p of None \<Rightarrow> None | Some q \<Rightarrow> closestHoistScope q)"

fun lookup :: "core \<Rightarrow> scope \<Rightarrow> string \<Rightarrow> scope option" where
  "lookup c (Scope i k n p) name =
     (if decls c i name \<noteq> None then Some (Scope i k n p)
      else case p of None \<Rightarrow> None | Some q \<Rightarrow> lookup c q name)"

definition getKind :: "core \<Rightarrow> scope \<Rightarrow> string \<Rightarrow> string option" where
  "getKind c s name = map_option dkind (decls c (sid s) name)"

definition getFromPos :: "core \<Rightarrow> scope \<Rightarrow> string \<Rightarrow> int option" where
  "getFromPos c s name = (case decls c (sid s) name of None \<Rightarrow> None | Some d \<Rightarrow> from_pos d)"

fun hasFunctionScopeBetween :: "scope \<Rightarrow> scope \<Rightarrow> bool option" where
  "hasFunctionScopeBetween (Scope i k n p) outer =
     (if Scope i k n p = outer then Some False
      else if isFunction (ninfo n) then Some True
      else case p of None \<Rightarrow> None | Some q \<Rightarrow> hasFunctionScopeBetween q outer)"

definition scope_add ::
  "core \<Rightarrow> scope \<Rightarrow> string \<Rightarrow> string \<Rightarrow> int option \<Rightarrow> nat option \<Rightarrow> core" where
  "scope_add c s name k referableFromPos originalDeclarator =
     c\<lparr>decls := (decls c)(sid s := (decls c (sid s))(name \<mapsto>
          \<lparr>dkind = k, from_pos = referableFromPos, declarator = originalDeclarator\<rparr>))\<rparr>"

section \<open>Declarations of variables\<close>

text \<open>
  \<open>addVariableToScope(variable, kind, originalDeclarator)\<close>, the helper of \<open>createScopes\<close>
  that flattens the target of a declarator into bindings of \<open>node.$scope\<close>. A target is
  an object pattern (\<open>properties\<close>), a property of one (\<open>value\<close>), an array pattern
  (\<open>elements\<close>, with holes), a spread element (\<open>argument.name\<close> and the element's
  \<open>range[1]\<close>), or anything else, which is declared under its \<open>name\<close>; the call of
  \<open>add\<close> passes the target's own \<open>range[1]\<close> as \<open>referableFromPos\<close> and the declarator
  (here its identity) as \<open>originalDeclarator\<close>.
\<close>

datatype variable =
    VObjectPattern "variable list"
  | VProperty variable
  | VArrayPattern "variable option list"
  | VSpreadElement string int
  | VIdentifier string int

fun addVariableToScope :: "scope \<Rightarrow> string \<Rightarrow> nat \<Rightarrow> variable \<Rightarrow> core \<Rightarrow> core" where
  "addVariableToScope nscope k originalDeclarator (VObjectPattern properties) c =
     fold (addVariableToScope nscope k originalDeclarator) properties c"
| "addVariableToScope nscope k originalDeclarator (VProperty v) c =
     addVariableToScope nscope k originalDeclarator v c"
| "addVariableToScope nscope k originalDeclarator (VArrayPattern elements) c =
     fold (\<lambda>v c. case v of None \<Rightarrow> c
                  | Some v' \<Rightarrow> addVariableToScope nscope k originalDeclarator v' c) elements c"
| "addVariableToScope nscope k originalDeclarator (VSpreadElement argument_name r1) c =
     scope_add c nscope argument_name k (Some r1) (Some originalDeclarator)"
| "addVariableToScope nscope k originalDeclarator (VIdentifier name r1) c =
     scope_add c nscope name k (Some r1) (Some originalDeclarator)"

text \<open>
  Modelled from the spec: \<open>lib/traverse\<close> is not among the sources. A pass visits the
  nodes of the tree in pre-order and "fails fast on the first semantic error, aborting the
  whole unit"; \<open>traverse_pre\<close> takes the nodes in that order.
\<close>

fun traverse_pre :: "(core \<Rightarrow> node \<Rightarrow> error + core) \<Rightarrow> core \<Rightarrow> node list \<Rightarrow> error + core" where
  "traverse_pre visit c [] = Inr c"
| "traverse_pre visit c (n # ns) =
     (case visit c n of Inl e \<Rightarrow> Inl e | Inr c' \<Rightarrow> traverse_pre visit c' ns)"

section \<open>Reference resolution and const-write detection\<close>

text \<open>
  \<open>setupReferences(node)\<close>, the visitor of the second pass. The two assertions on
  \<open>is.finitenumber\<close>: \<open>node.range[0]\<close> is a number of the parser; the visible-from position
  is missing (\<open>None\<close>) for a declaration recorded without one.
\<close>

definition setupReferences :: "core \<Rightarrow> node \<Rightarrow> error + core" where
  "setupReferences c node =
     (case isReference c node of
        Inl e \<Rightarrow> Inl e
      | Inr False \<Rightarrow> Inr c
      | Inr True \<Rightarrow>
          let name = nname (ninfo node);
              c1 = c\<lparr>allIdentifiers := ss_add (allIdentifiers c) name\<rparr>
          in case scope_of c1 (nid (ninfo node)) of
               None \<Rightarrow> Inl TypeError
             | Some nscope \<Rightarrow>
                 let scope = lookup c1 nscope name;
                     c2 = c1\<lparr>refToScope := (refToScope c1)(nid (ninfo node) := scope)\<rparr>
                 in case scope of
                      None \<Rightarrow>
                        if disallowUnknownReferences (opts c1)
                        then Inl (UnknownReferenceError (line (ninfo node)) name)
                        else Inr c2
                    | Some sc \<Rightarrow>
                        if isConstLet (getKind c1 sc name) then
                          (case getFromPos c1 sc name of
                             None \<Rightarrow> Inl AssertionError
                           | Some allowedFromPos \<Rightarrow>
                               if range0 (ninfo node) < allowedFromPos then
                                 (case hasFunctionScopeBetween nscope sc of
                                    None \<Rightarrow> Inl AssertionError
                                  | Some between \<Rightarrow>
                                      if \<not> between
                                      then Inl (UseBeforeDeclarationError (line (ninfo node)) name)
                                      else Inr c2)
                               else Inr c2)
                        else Inr c2)"

definition detectConstAssignment :: "core \<Rightarrow> node \<Rightarrow> error + core" where
  "detectConstAssignment c node =
     (case isLvalue c node of
        Inl e \<Rightarrow> Inl e
      | Inr False \<Rightarrow> Inr c
      | Inr True \<Rightarrow>
          (case scope_of c (nid (ninfo node)) of
             None \<Rightarrow> Inl TypeError
           | Some nscope \<Rightarrow>
               (case lookup c nscope (nname (ninfo node)) of
                  None \<Rightarrow> Inr c
                | Some scope \<Rightarrow>
                    if getKind c scope (nname (ninfo node)) = Some ''const''
                    then Inl (ConstReassignmentError (line (ninfo node)) (nname (ninfo node)))
                    else Inr c)))"

section \<open>Closures in loops\<close>

text \<open>
  The walk \<open>while (n) { .. n = n.$parent }\<close> of \<open>detectLoopClosuresPre\<close>, from the node
  that owns the declaring scope upward: \<open>True\<close> is \<open>ok\<close>. \<open>fn\<close> is the last element of
  \<open>this.functions\<close>, \<open>loop\<close> is \<open>this.outermostLoop\<close>.
\<close>

fun closure_walk :: "node \<Rightarrow> node \<Rightarrow> node \<Rightarrow> bool" where
  "closure_walk fn loop (Node i p) =
     (if Node i p = fn then True
      else if Node i p = loop then False
      else case p of None \<Rightarrow> True | Some q \<Rightarrow> closure_walk fn loop q)"

definition detectLoopClosuresPre :: "core \<Rightarrow> node \<Rightarrow> error + core" where
  "detectLoopClosuresPre c node =
     (let c1 = (if outermostLoop c = None \<and> isLoop (ninfo node)
                then c\<lparr>outermostLoop := Some node\<rparr> else c)
      in case outermostLoop c1 of
        None \<Rightarrow> Inr c1
      | Some loop \<Rightarrow>
          let c2 = (if isFunction (ninfo node)
                    then c1\<lparr>functions' := functions' c1 @ [node]\<rparr> else c1)
          in if length (functions' c2) = 0 then Inr c2
             else case isReference c2 node of
               Inl e \<Rightarrow> Inl e
             | Inr False \<Rightarrow> Inr c2
             | Inr True \<Rightarrow>
                 (case refToScope c2 (nid (ninfo node)) of
                    None \<Rightarrow> Inl TypeError
                  | Some refScope \<Rightarrow>
                      if isConstLet (getKind c2 refScope (nname (ninfo node))) then
                        (if closure_walk (last (functions' c2)) loop (snode refScope)
                         then Inr c2
                         else Inl (UnsupportedLoopClosureError (line (ninfo node))
                                     (nname (ninfo node))))
                      else Inr c2))"

definition detectLoopClosuresPost :: "core \<Rightarrow> node \<Rightarrow> core" where
  "detectLoopClosuresPost c node =
     (let c1 = (if outermostLoop c = Some node then c\<lparr>outermostLoop := None\<rparr> else c)
      in if isFunction (ninfo node) then c1\<lparr>functions' := butlast (functions' c1)\<rparr> else c1)"

section \<open>The common hoisting scope: findParentForScopes\<close>

text \<open>
  \<open>findParentForScopes(scope, ...)\<close> works on the array of its arguments.
  \<^item> The test \<open>scopesLength.length === 1\<close> reads \<open>length\<close> of a number, which is
    \<open>undefined\<close>: the branch is never taken and is left out.
  \<^item> The first loop replaces every scope by its closest hoisting scope and returns the
    first one that is owned by the \<open>Program\<close> node.
  \<^item> \<open>uniquePathId = UUID_PREFIX + UUID++\<close> is a string that differs from call to call by
    the counter only; the mark \<open>$__path\<close> of a scope holds the counter.
  \<^item> The loop \<open>while (!parentScope && scopesLength && ++maxCounter < 1000)\<close> runs the
    inner \<open>for\<close> loop over the array. The inner loop may shorten the array: on a scope
    without parent it executes \<open>scopesLength--; i--; scopes.splice(i, 1)\<close>, which removes
    the element before the current one (the last one, when the current index is 0, since
    \<open>splice(-1, 1)\<close> counts from the end), and the \<open>++i\<close> of the loop then brings the
    index back.
\<close>

datatype 'a search = Found scope | Continue 'a

fun hoist_scopes :: "scope list \<Rightarrow> error + scope list search" where
  "hoist_scopes [] = Inr (Continue [])"
| "hoist_scopes (s # ss) =
     (case closestHoistScope s of
        None \<Rightarrow> Inl TypeError
      | Some scope \<Rightarrow>
          if ntype (ninfo (snode scope)) = ''Program'' then Inr (Found scope)
          else (case hoist_scopes ss of
                  Inl e \<Rightarrow> Inl e
                | Inr (Found p) \<Rightarrow> Inr (Found p)
                | Inr (Continue hs) \<Rightarrow> Inr (Continue (scope # hs))))"

definition splice1 :: "int \<Rightarrow> 'a list \<Rightarrow> 'a list" where
  "splice1 start xs =
     (let len = int (length xs);
          k = nat (if start < 0 then max (len + start) 0 else min start len)
      in take k xs @ drop (k + 1) xs)"

function for_scopes ::
  "nat \<Rightarrow> nat \<Rightarrow> scope list \<Rightarrow> nat \<Rightarrow> core
     \<Rightarrow> error + (scope option \<times> scope list \<times> nat \<times> core)" where
  "for_scopes uniquePathId i scopes scopesLength c =
     (if \<not> i < scopesLength then Inr (None, scopes, scopesLength, c)
      else if \<not> i < length scopes then Inl TypeError
      else
        let scope = scopes ! i in
        case closestHoistScope scope of
          None \<Rightarrow> Inl TypeError
        | Some hoistScope \<Rightarrow>
            let scope' = (if hoistScope = scope then sparent scope else Some scope) in
            if path_mark c (sid hoistScope) = Some uniquePathId
            then Inr (Some hoistScope, scopes, scopesLength, c)
            else (case scope' of
                    Some sc \<Rightarrow>
                      for_scopes uniquePathId (i + 1) (scopes[i := sc]) scopesLength
                        (c\<lparr>path_mark := (path_mark c)(sid hoistScope := Some uniquePathId)\<rparr>)
                  | None \<Rightarrow>
                      for_scopes uniquePathId i (splice1 (int i - 1) scopes)
                        (scopesLength - 1) c))"
  by pat_completeness auto
termination
  by (relation "measure (\<lambda>(uniquePathId, i, scopes, scopesLength, c). scopesLength - i)") auto

declare for_scopes.simps [simp del]

function while_scopes ::
  "nat \<Rightarrow> nat \<Rightarrow> scope list \<Rightarrow> nat \<Rightarrow> core \<Rightarrow> error + (scope option \<times> core)" where
  "while_scopes uniquePathId maxCounter scopes scopesLength c =
     (if scopesLength \<noteq> 0 \<and> maxCounter + 1 < 1000 then
        (case for_scopes uniquePathId 0 scopes scopesLength c of
           Inl e \<Rightarrow> Inl e
         | Inr (Some parentScope, scopes', scopesLength', c') \<Rightarrow> Inr (Some parentScope, c')
         | Inr (None, scopes', scopesLength', c') \<Rightarrow>
             while_scopes uniquePathId (maxCounter + 1) scopes' scopesLength' c')
      else Inr (None, c))"
  by pat_completeness auto
termination
  by (relation "measure (\<lambda>(uniquePathId, maxCounter, scopes, scopesLength, c). 1000 - maxCounter)")
     auto

declare while_scopes.simps [simp del]

definition findParentForScopes :: "core \<Rightarrow> scope list \<Rightarrow> error + (scope \<times> core)" where
  "findParentForScopes c scopes =
     (if length scopes = 0 then Inl AssertionError
      else case hoist_scopes scopes of
        Inl e \<Rightarrow> Inl e
      | Inr (Found scope) \<Rightarrow> Inr (scope, c)
      | Inr (Continue hoisted) \<Rightarrow>
          (case while_scopes (UUID c) 0 hoisted (length scopes) (c\<lparr>UUID := UUID c + 1\<rparr>) of
             Inl e \<Rightarrow> Inl e
           | Inr (None, c') \<Rightarrow> Inl AssertionError
           | Inr (Some parentScope, c') \<Rightarrow> Inr (parentScope, c')))"

section \<open>Shared helpers: bubbledVariableDeclaration\<close>

text \<open>
  \<open>__getNodeBegin(node)\<close>: where a declaration is inserted in the node that owns a
  hoisting scope. \<open>body_range0\<close> is \<open>range[0]\<close> of \<open>node.body\<close>, or of its first element
  when the body is a non-empty array; where the node has no such position (the object
  \<open>{}\<close> of the ambient scope) the read throws.
\<close>

definition getNodeBegin :: "node_info \<Rightarrow> error + int" where
  "getNodeBegin n =
     (if ntype n = ''Program'' then Inr 0
      else case body_range0 n of
        None \<Rightarrow> Inl TypeError
      | Some begin \<Rightarrow>
          if ntype n = ''ArrowFunctionExpression'' then Inr begin
          else Inr (if isFunction n then begin + 1 else begin))"

definition createScopeVariableDeclaration :: "core \<Rightarrow> scope \<Rightarrow> string \<Rightarrow> string \<Rightarrow> core" where
  "createScopeVariableDeclaration c scope k variableName =
     scope_add c scope variableName k None None"

definition isBubbledVariableDeclaration :: "core \<Rightarrow> string \<Rightarrow> string \<Rightarrow> bubbledVariable option" where
  "isBubbledVariableDeclaration c variableName variableInitValue =
     (case bubbledVariables c variableName of
        None \<Rightarrow> None
      | Some bubbledVariable \<Rightarrow>
          if bvalue bubbledVariable = variableInitValue then Some bubbledVariable else None)"

text \<open>
  \<open>__createBubbledVariableDeclaration\<close>. A bubbled variable is an object that the table
  \<open>bubbledVariables\<close> holds under its logical name; the rebase passes that object in and
  the function assigns to its \<open>scope\<close> and \<open>changesOptions\<close>. The model passes the object
  with the key it was read from and writes the changed record back under that key.
  \<open>changesOptions = {}\<close> is a new object, without the property \<open>inactive\<close>: the next free
  address, with the flag unset. The other arguments of the rebase call are \<open>void 0\<close> and are
  overwritten before use.
\<close>

definition createBubbledVariableDeclaration ::
  "core \<Rightarrow> scope \<Rightarrow> string \<Rightarrow> string \<Rightarrow> bool \<Rightarrow> (string \<times> bubbledVariable) option
     \<Rightarrow> error + (string \<times> core)" where
  "createBubbledVariableDeclaration c scope variableName variableInitValue isFn bubbledVariable =
     (case (case bubbledVariable of
              Some (key, bv) \<Rightarrow>
                let bv' = bv\<lparr>bscope := scope, changesOptions := next_object c\<rparr>
                in Inr (bv', c\<lparr>bubbledVariables := (bubbledVariables c)(key \<mapsto> bv'),
                               inactive := (inactive c)(next_object c := False),
                               next_object := next_object c + 1\<rparr>)
            | None \<Rightarrow>
                (case unique c variableName True None of
                   Inl e \<Rightarrow> Inl e
                 | Inr (g, c1) \<Rightarrow>
                     let bv' = \<lparr>bname = g, bvalue = variableInitValue, bisFunction = isFn,
                                bscope = scope, changesOptions = next_object c1\<rparr>
                     in Inr (bv', c1\<lparr>bubbledVariables := (bubbledVariables c1)(variableName \<mapsto> bv'),
                                     inactive := (inactive c1)(next_object c1 := False),
                                     next_object := next_object c1 + 1\<rparr>))) of
        Inl e \<Rightarrow> Inl e
      | Inr (bv, c2) \<Rightarrow>
          let c3 = createScopeVariableDeclaration c2 scope ''var'' (bname bv);
              text = (if bisFunction bv then ''function '' @ bname bv @ bvalue bv
                      else ''var '' @ bname bv @ '' = '' @ bvalue bv @ '';'')
          in case getNodeBegin (ninfo (snode scope)) of
               Inl e \<Rightarrow> Inl e
             | Inr begin \<Rightarrow>
                 Inr (bname bv,
                      c3\<lparr>alter := alter c3 @ [\<lparr>epos = begin, estr = text,
                                                 eoptions = Some (changesOptions bv)\<rparr>]\<rparr>))"

definition rebaseBubbledVariableDeclaration :: "core \<Rightarrow> scope \<Rightarrow> string \<Rightarrow> error + (string \<times> core)" where
  "rebaseBubbledVariableDeclaration c scope variableName =
     (case bubbledVariables c variableName of
        None \<Rightarrow> Inl TypeError
      | Some bubbledVariable \<Rightarrow>
          createBubbledVariableDeclaration
            (c\<lparr>inactive := (inactive c)(changesOptions bubbledVariable := True)\<rparr>)
            scope [] [] False (Some (variableName, bubbledVariable)))"

definition bubbledVariableDeclaration ::
  "core \<Rightarrow> scope \<Rightarrow> string \<Rightarrow> string \<Rightarrow> bool \<Rightarrow> error + (string \<times> core)" where
  "bubbledVariableDeclaration c scope variableName variableInitValue isFn =
     (case closestHoistScope scope of
        None \<Rightarrow> Inl TypeError
      | Some hoist \<Rightarrow>
          (case isBubbledVariableDeclaration c variableName variableInitValue of
             Some bubbledVariable \<Rightarrow>
               if lookup c hoist (bname bubbledVariable) \<noteq> None
               then Inr (bname bubbledVariable, c)
               else (case findParentForScopes c [hoist, bscope bubbledVariable] of
                       Inl e \<Rightarrow> Inl e
                     | Inr (parent, c1) \<Rightarrow> rebaseBubbledVariableDeclaration c1 parent variableName)
           | None \<Rightarrow>
               createBubbledVariableDeclaration c hoist variableName variableInitValue isFn None))"

text \<open>
  An edit is active unless its options object carries \<open>inactive\<close>.
\<close>

definition active :: "core \<Rightarrow> edit \<Rightarrow> bool" where
  "active c e = (case eoptions e of None \<Rightarrow> True | Some a \<Rightarrow> \<not> inactive c a)"

section \<open>Class lowering: the prototype wiring\<close>

text \<open>
  The table of accessors of a class is a JavaScript object from property names to
  records with the optional properties \<open>raw\<close>, \<open>get\<close> and \<open>set\<close>; it is modelled as the
  list of its entries in the order of \<open>Object.keys\<close>. A string is truthy when it is
  present and not empty. \<open>superName\<close> is the value of \<open>superClass && SUPER_NAME\<close>.
\<close>

record accessor =
  raw :: "string option"
  getter :: "string option"
  setter :: "string option"

definition truthy :: "string option \<Rightarrow> bool" where
  "truthy s = (case s of None \<Rightarrow> False | Some x \<Rightarrow> x \<noteq> [])"

fun join :: "string \<Rightarrow> string list \<Rightarrow> string" where
  "join sep [] = []"
| "join sep [x] = x"
| "join sep (x # y # ys) = x @ sep @ join sep (y # ys)"

definition accessorString :: "string \<times> accessor \<Rightarrow> string" where
  "accessorString entry =
     (case entry of (key, accessor) \<Rightarrow>
        (if truthy (raw accessor) then the (raw accessor) else key)
        @ '': {''
        @ (if truthy (getter accessor) then ''\"get\": '' @ the (getter accessor) @ '', '' else [])
        @ (if truthy (setter accessor) then ''\"set\": '' @ the (setter accessor) @ '', '' else [])
        @ ''\"configurable\": true, \"enumerable\": true}'')"

definition freezePrototypeString :: "string \<Rightarrow> string \<Rightarrow> string" where
  "freezePrototypeString Object_defineProperty_name className =
     Object_defineProperty_name @ ''('' @ className
       @ '', \"prototype\", {\"configurable\": false, \"enumerable\": false, \"writable\": false});''"

definition createPrototypeString ::
  "core \<Rightarrow> node \<Rightarrow> string \<Rightarrow> string option \<Rightarrow> (string \<times> accessor) list
     \<Rightarrow> error + (string \<times> core)" where
  "createPrototypeString c node className superName accessors =
     (let accessorsString = join '', '' (map accessorString accessors) in
      case scope_of c (nid (ninfo node)) of
        None \<Rightarrow> Inl TypeError
      | Some nscope \<Rightarrow>
          (case bubbledVariableDeclaration c nscope ''DP'' ''Object.defineProperty'' False of
             Inl e \<Rightarrow> Inl e
           | Inr (Object_defineProperty_name, c') \<Rightarrow>
               Inr (
                 (if truthy superName then
                    className @ ''.prototype = Object.create('' @ the superName @ ''.prototype''
                      @ '', {''
                      @ ''\"constructor\": {\"value\": '' @ className
                      @ '', \"configurable\": true, \"writable\": true}''
                      @ (if accessorsString \<noteq> [] then '', '' @ accessorsString else [])
                      @ '' }''
                      @ '');''
                      @ freezePrototypeString Object_defineProperty_name className
                  else if accessorsString \<noteq> [] then
                    ''Object.defineProperties('' @ className @ ''.prototype, {''
                      @ accessorsString @ ''});''
                      @ freezePrototypeString Object_defineProperty_name className
                  else freezePrototypeString Object_defineProperty_name className),
                 c')))"

section \<open>Parameter lowering: transpiler/functions.js\<close>




















section \<open>Example programs\<close>

text \<open>
  Example states for the closed facts below: a core that has run \<open>setup\<close> once, with the
  names \<open>a\<close> and \<open>a$0\<close> in its registry.
\<close>

definition no_options :: options where
  "no_options = \<lparr>disallowVars = False, disallowUnknownReferences = False\<rparr>"

definition loaded_core :: core where
  "loaded_core = \<lparr>allIdentifiers = [], outermostLoop = None, functions' = [],
     bubbledVariables = Map.empty, isInit = False, alter = [], src = [], opts = no_options,
     UUID = 1, decls = (\<lambda>_. Map.empty), path_mark = (\<lambda>_. None), scope_of = (\<lambda>_. None),
     refToScope = (\<lambda>_. None), inactive = (\<lambda>_. False), next_object = 0\<rparr>"

definition core_a :: core where
  "core_a = loaded_core\<lparr>isInit := True, allIdentifiers := [''a'', ''a$0'']\<rparr>"


text \<open>
  Nodes are written with \<open>info\<close>, which fills the properties a node does not have. The
  ambient scope above the program root is owned by the object \<open>{}\<close>.
\<close>

definition info :: "nat \<Rightarrow> string \<Rightarrow> string \<Rightarrow> int \<Rightarrow> int \<Rightarrow> node_info" where
  "info i t n r0 r1 = \<lparr>nid = i, ntype = t, nname = n, range0 = r0, range1 = r1, line = 1,
     computed = False, id_ref = None, property_ref = None, key_ref = None, label_ref = None,
     param_ref = None, left_ref = None, argument_ref = None, params = [], defaults = [],
     rest = None, body_range0 = None\<rparr>"

definition top_scope :: scope where
  "top_scope = Scope 0 ''hoist'' (Node (info 0 [] [] 0 0) None) None"

subsection \<open>The program \<open>let x = x;\<close>\<close>

text \<open>
  \<open>Program [0,10] > VariableDeclaration [0,10] > VariableDeclarator [4,9]\<close> with the
  children \<open>id = Identifier x [4,5]\<close> and \<open>init = Identifier x [8,9]\<close>. The scope pass
  gives every node the scope of the program and declares \<open>x\<close> through
  \<open>addVariableToScope(declarator.id, "let", declarator)\<close>, the declarator being node 3.
\<close>

definition p1_program :: node where
  "p1_program = Node ((info 1 ''Program'' [] 0 10)\<lparr>body_range0 := Some 0\<rparr>) None"

definition p1_declaration :: node where
  "p1_declaration = Node (info 2 ''VariableDeclaration'' [] 0 10) (Some p1_program)"

definition p1_declarator :: node where
  "p1_declarator =
     Node ((info 3 ''VariableDeclarator'' [] 4 9)\<lparr>id_ref := Some 4\<rparr>) (Some p1_declaration)"

definition p1_x_id :: node where
  "p1_x_id = Node (info 4 ''Identifier'' ''x'' 4 5) (Some p1_declarator)"

definition p1_x_init :: node where
  "p1_x_init = Node (info 5 ''Identifier'' ''x'' 8 9) (Some p1_declarator)"

definition p1_scope :: scope where
  "p1_scope = Scope 1 ''hoist'' p1_program (Some top_scope)"

definition p1_core :: core where
  "p1_core = addVariableToScope p1_scope ''let'' 3 (VIdentifier ''x'' 5)
     (loaded_core\<lparr>isInit := True,
        scope_of := (\<lambda>i. if 1 \<le> i \<and> i \<le> 5 then Some p1_scope else None)\<rparr>)"

lemmas p1_defs = p1_core_def p1_scope_def p1_x_init_def p1_x_id_def p1_declarator_def
  p1_declaration_def p1_program_def top_scope_def info_def loaded_core_def no_options_def

subsection \<open>The program \<open>function f(){ return x; } let x = 1; f();\<close>\<close>

text \<open>
  \<open>FunctionDeclaration [0,25]\<close> with body \<open>BlockStatement [12,25]\<close>, in it the reference
  \<open>x [21,22]\<close>; the declarator (node 8) has the \<open>id\<close> \<open>x [30,31]\<close>. \<open>createScopes\<close> makes a scope
  for the function and one for every block statement (its test \<open>isNonFunctionBlock\<close> applies
  \<open>isFunction\<close> to the parent's type string, which has no \<open>type\<close>, so no block is ever
  taken for a function body); the reference lives in the scope of the body.
\<close>

definition p2_program :: node where
  "p2_program = Node ((info 1 ''Program'' [] 0 41)\<lparr>body_range0 := Some 0\<rparr>) None"

definition p2_function :: node where
  "p2_function = Node ((info 2 ''FunctionDeclaration'' [] 0 25)
                        \<lparr>id_ref := Some 3, body_range0 := Some 12\<rparr>) (Some p2_program)"

definition p2_body :: node where
  "p2_body = Node (info 4 ''BlockStatement'' [] 12 25) (Some p2_function)"

definition p2_return :: node where
  "p2_return = Node ((info 5 ''ReturnStatement'' [] 14 23)\<lparr>argument_ref := Some 6\<rparr>) (Some p2_body)"

definition p2_x :: node where
  "p2_x = Node (info 6 ''Identifier'' ''x'' 21 22) (Some p2_return)"

definition p2_scope :: scope where
  "p2_scope = Scope 1 ''hoist'' p2_program (Some top_scope)"

definition p2_function_scope :: scope where
  "p2_function_scope = Scope 2 ''hoist'' p2_function (Some p2_scope)"

definition p2_body_scope :: scope where
  "p2_body_scope = Scope 3 ''block'' p2_body (Some p2_function_scope)"

definition p2_core :: core where
  "p2_core = addVariableToScope p2_scope ''let'' 8 (VIdentifier ''x'' 31)
     (scope_add
        (loaded_core\<lparr>isInit := True,
           scope_of := (\<lambda>i. if i = 2 then Some p2_function_scope
                             else if 4 \<le> i \<and> i \<le> 6 then Some p2_body_scope
                             else Some p2_scope)\<rparr>)
        p2_scope ''f'' ''fun'' None None)"

lemmas p2_defs = p2_core_def p2_body_scope_def p2_function_scope_def p2_scope_def p2_x_def
  p2_return_def p2_body_def p2_function_def p2_program_def top_scope_def info_def
  loaded_core_def no_options_def

subsection \<open>The program \<open>x; let x = 1;\<close>\<close>

text \<open>
  The statement \<open>x;\<close> is an \<open>ExpressionStatement [0,2]\<close> with the expression
  \<open>x [0,1]\<close>; the declarator (node 5) has the \<open>id\<close> \<open>x [7,8]\<close>.
\<close>

definition p8_program :: node where
  "p8_program = Node ((info 1 ''Program'' [] 0 13)\<lparr>body_range0 := Some 0\<rparr>) None"

definition p8_statement :: node where
  "p8_statement = Node (info 2 ''ExpressionStatement'' [] 0 2) (Some p8_program)"

definition p8_x :: node where
  "p8_x = Node (info 3 ''Identifier'' ''x'' 0 1) (Some p8_statement)"

definition p8_scope :: scope where
  "p8_scope = Scope 1 ''hoist'' p8_program (Some top_scope)"

definition p8_core :: core where
  "p8_core = addVariableToScope p8_scope ''let'' 5 (VIdentifier ''x'' 8)
     (loaded_core\<lparr>isInit := True, scope_of := (\<lambda>i. Some p8_scope)\<rparr>)"

lemmas p8_defs = p8_core_def p8_scope_def p8_x_def p8_statement_def p8_program_def
  top_scope_def info_def loaded_core_def no_options_def

subsection \<open>The program \<open>const c = 1; c = 2;\<close>\<close>

text \<open>
  The declarator (node 3) has the \<open>id\<close> \<open>c [6,7]\<close>; the statement \<open>c = 2;\<close> is an
  \<open>ExpressionStatement [13,19] > AssignmentExpression [13,18]\<close> whose \<open>left\<close> is
  \<open>c [13,14]\<close>.
\<close>

definition p3_program :: node where
  "p3_program = Node ((info 1 ''Program'' [] 0 19)\<lparr>body_range0 := Some 0\<rparr>) None"

definition p3_statement :: node where
  "p3_statement = Node (info 6 ''ExpressionStatement'' [] 13 19) (Some p3_program)"

definition p3_assignment :: node where
  "p3_assignment =
     Node ((info 7 ''AssignmentExpression'' [] 13 18)\<lparr>left_ref := Some 8\<rparr>) (Some p3_statement)"

definition p3_c :: node where
  "p3_c = Node (info 8 ''Identifier'' ''c'' 13 14) (Some p3_assignment)"

definition p3_scope :: scope where
  "p3_scope = Scope 1 ''hoist'' p3_program (Some top_scope)"

definition p3_core :: core where
  "p3_core = addVariableToScope p3_scope ''const'' 3 (VIdentifier ''c'' 7)
     (loaded_core\<lparr>isInit := True, scope_of := (\<lambda>i. Some p3_scope)\<rparr>)"

lemmas p3_defs = p3_core_def p3_scope_def p3_c_def p3_assignment_def p3_statement_def
  p3_program_def top_scope_def info_def loaded_core_def no_options_def

subsection \<open>The program \<open>for (let i = 0; i < 3; i++) { (function () { i; }); }\<close>\<close>

text \<open>
  \<open>ForStatement [0,53]\<close> with body \<open>BlockStatement [28,53]\<close>, in it the statement
  \<open>(function () { i; });\<close> with the \<open>FunctionExpression [31,49]\<close>, whose body
  \<open>BlockStatement [43,49]\<close> holds the reference \<open>i [45,46]\<close>. The loop declares \<open>i\<close> with
  \<open>let\<close> (the declarator is node 4), so the \<open>for\<close> statement owns a block scope, the declaring scope of \<open>i\<close>. When
  the closure checker comes to the reference it has entered the loop and the function.
\<close>

definition p4_program :: node where
  "p4_program = Node ((info 1 ''Program'' [] 0 53)\<lparr>body_range0 := Some 0\<rparr>) None"

definition p4_for :: node where
  "p4_for = Node (info 2 ''ForStatement'' [] 0 53) (Some p4_program)"

definition p4_for_body :: node where
  "p4_for_body = Node (info 10 ''BlockStatement'' [] 28 53) (Some p4_for)"

definition p4_statement :: node where
  "p4_statement = Node (info 11 ''ExpressionStatement'' [] 30 51) (Some p4_for_body)"

definition p4_function :: node where
  "p4_function =
     Node ((info 12 ''FunctionExpression'' [] 31 49)\<lparr>body_range0 := Some 43\<rparr>) (Some p4_statement)"

definition p4_function_body :: node where
  "p4_function_body = Node (info 13 ''BlockStatement'' [] 43 49) (Some p4_function)"

definition p4_inner_statement :: node where
  "p4_inner_statement = Node (info 14 ''ExpressionStatement'' [] 45 47) (Some p4_function_body)"

definition p4_i :: node where
  "p4_i = Node (info 15 ''Identifier'' ''i'' 45 46) (Some p4_inner_statement)"

definition p4_scope :: scope where
  "p4_scope = Scope 1 ''hoist'' p4_program (Some top_scope)"

definition p4_for_scope :: scope where
  "p4_for_scope = Scope 2 ''block'' p4_for (Some p4_scope)"

definition p4_core :: core where
  "p4_core = (addVariableToScope p4_for_scope ''let'' 4 (VIdentifier ''i'' 10)
     (loaded_core\<lparr>isInit := True\<rparr>))
       \<lparr>refToScope := (\<lambda>i. if i = 15 then Some p4_for_scope else None),
        outermostLoop := Some p4_for, functions' := [p4_function]\<rparr>"

lemmas p4_defs = p4_core_def p4_for_scope_def p4_scope_def p4_i_def p4_inner_statement_def
  p4_function_body_def p4_function_def p4_statement_def p4_for_body_def p4_for_def
  p4_program_def top_scope_def info_def loaded_core_def no_options_def

subsection \<open>The program \<open>function b() { class X {} } function g() { function a() { class Y {} } }\<close>\<close>

text \<open>
  Two functions at the top level, \<open>b [0,27]\<close> and \<open>g [28,72]\<close>, and the function
  \<open>a [43,70]\<close> inside the body of \<open>g\<close>; the classes \<open>X [15,25]\<close> and \<open>Y [58,68]\<close> stand
  in the bodies of \<open>b\<close> and \<open>a\<close>. Every function owns a hoisting scope and every body a
  block scope under it. Lowering a class requests the shared helper \<open>DP\<close> from the scope
  of the class.
\<close>

definition p5_program :: node where
  "p5_program = Node ((info 1 ''Program'' [] 0 72)\<lparr>body_range0 := Some 0\<rparr>) None"

definition p5_b :: node where
  "p5_b = Node ((info 2 ''FunctionDeclaration'' [] 0 27)
                 \<lparr>id_ref := Some 3, body_range0 := Some 13\<rparr>) (Some p5_program)"

definition p5_b_body :: node where
  "p5_b_body = Node (info 4 ''BlockStatement'' [] 13 27) (Some p5_b)"

definition p5_X :: node where
  "p5_X = Node ((info 5 ''ClassDeclaration'' [] 15 25)\<lparr>id_ref := Some 6\<rparr>) (Some p5_b_body)"

definition p5_g :: node where
  "p5_g = Node ((info 8 ''FunctionDeclaration'' [] 28 72)
                 \<lparr>id_ref := Some 9, body_range0 := Some 41\<rparr>) (Some p5_program)"

definition p5_g_body :: node where
  "p5_g_body = Node (info 10 ''BlockStatement'' [] 41 72) (Some p5_g)"

definition p5_a :: node where
  "p5_a = Node ((info 11 ''FunctionDeclaration'' [] 43 70)
                 \<lparr>id_ref := Some 12, body_range0 := Some 56\<rparr>) (Some p5_g_body)"

definition p5_a_body :: node where
  "p5_a_body = Node (info 13 ''BlockStatement'' [] 56 70) (Some p5_a)"

definition p5_Y :: node where
  "p5_Y = Node ((info 14 ''ClassDeclaration'' [] 58 68)\<lparr>id_ref := Some 15\<rparr>) (Some p5_a_body)"

definition p5_scope :: scope where
  "p5_scope = Scope 1 ''hoist'' p5_program (Some top_scope)"

definition p5_b_scope :: scope where
  "p5_b_scope = Scope 2 ''hoist'' p5_b (Some p5_scope)"

definition p5_b_body_scope :: scope where
  "p5_b_body_scope = Scope 3 ''block'' p5_b_body (Some p5_b_scope)"

definition p5_g_scope :: scope where
  "p5_g_scope = Scope 4 ''hoist'' p5_g (Some p5_scope)"

definition p5_g_body_scope :: scope where
  "p5_g_body_scope = Scope 5 ''block'' p5_g_body (Some p5_g_scope)"

definition p5_a_scope :: scope where
  "p5_a_scope = Scope 6 ''hoist'' p5_a (Some p5_g_body_scope)"

definition p5_a_body_scope :: scope where
  "p5_a_body_scope = Scope 7 ''block'' p5_a_body (Some p5_a_scope)"

definition p5_core :: core where
  "p5_core = loaded_core\<lparr>isInit := True,
     scope_of := (\<lambda>i. if i = 5 then Some p5_b_body_scope
                       else if i = 14 then Some p5_a_body_scope else None)\<rparr>"

subsection \<open>The programs \<open>function f(a = a){}\<close>, \<open>var f = (a = a) => a;\<close> and \<open>function f(b = 1, a = a){}\<close>\<close>










section \<open>Notions used to state the properties\<close>

text \<open>
  What the registry of a unit goes through between two resets, as far as names are
  concerned: a declaring request \<open>unique(name, true, filter)\<close>, or the registration of a
  name that the program declares or references (\<open>allIdentifiers.add\<close> in
  \<open>setupReferences\<close>, \<open>addMany\<close> in \<open>pre\<close>). \<open>minted\<close> runs a sequence of them and
  collects the identifiers the declaring requests return, latest first.
\<close>

datatype registry_op = Mint string "stringset option" | Register string

fun minted :: "core \<Rightarrow> registry_op list \<Rightarrow> string list \<times> core" where
  "minted c [] = ([], c)"
| "minted c (Register x # ops) = minted (c\<lparr>allIdentifiers := ss_add (allIdentifiers c) x\<rparr>) ops"
| "minted c (Mint name additionalFilter # ops) =
     (case unique c name True additionalFilter of
        Inl e \<Rightarrow> ([], c)
      | Inr (g, c') \<Rightarrow> (case minted c' ops of (gs, c'') \<Rightarrow> (gs @ [g], c'')))"

fun is_Mint :: "registry_op \<Rightarrow> bool" where
  "is_Mint (Mint _ _) = True"
| "is_Mint (Register _) = False"

text \<open>
  The scopes from a scope outward, and those of them that come before a given outer
  scope: the scopes a walk from the use to the declaring scope passes.
\<close>

fun scope_chain :: "scope \<Rightarrow> scope list" where
  "scope_chain (Scope i k n p) =
     Scope i k n p # (case p of None \<Rightarrow> [] | Some q \<Rightarrow> scope_chain q)"

definition scopes_between :: "scope \<Rightarrow> scope \<Rightarrow> scope list" where
  "scopes_between inner outer = takeWhile (\<lambda>s. s \<noteq> outer) (scope_chain inner)"

text \<open>
  The ancestors of a node, itself first. The outermost loop "is reached before" the
  innermost function when the first ancestor that is one of the two is the loop.
\<close>

fun ancestors :: "node \<Rightarrow> node list" where
  "ancestors (Node i p) = Node i p # (case p of None \<Rightarrow> [] | Some q \<Rightarrow> ancestors q)"

definition loop_reached_first :: "node \<Rightarrow> node \<Rightarrow> node \<Rightarrow> bool" where
  "loop_reached_first fn loop start =
     (case find (\<lambda>n. n = fn \<or> n = loop) (ancestors start) of
        None \<Rightarrow> False
      | Some n \<Rightarrow> n \<noteq> fn)"

text \<open>
  A first unit runs \<open>setup\<close> on the freshly loaded core and mints a name for \<open>x\<close>; the
  \<open>setup\<close> of the next unit then starts with \<open>x$0\<close> in the registry.
\<close>

definition first_unit_end :: core where
  "first_unit_end =
     (case unique (core_setup [] p1_program no_options [] loaded_core) ''x'' True None of
        Inl e \<Rightarrow> loaded_core
      | Inr (g, c) \<Rightarrow> c)"

text \<open>
  A request \<open>bubbledVariableDeclaration(scope, name, value, isFunction)\<close>, and a run of
  requests in the order the lowering plugins make them (the class plugin asks for \<open>DP\<close>
  and then for \<open>MIXIN\<close> at every class). The run stops at the first failure; otherwise it
  yields, for every request, the identifier returned and the positions in the edit sink of
  the edits that this request inserted, and the state at the end.
\<close>

record request =
  rscope :: scope
  rname :: string
  rvalue :: string
  risFunction :: bool

fun serve :: "core \<Rightarrow> request list \<Rightarrow> error + ((string \<times> nat list) list \<times> core)" where
  "serve c [] = Inr ([], c)"
| "serve c (r # rs) =
     (case bubbledVariableDeclaration c (rscope r) (rname r) (rvalue r) (risFunction r) of
        Inl e \<Rightarrow> Inl e
      | Inr (g, c') \<Rightarrow>
          (case serve c' rs of
             Inl e \<Rightarrow> Inl e
           | Inr (as, c'') \<Rightarrow> Inr ((g, [length (alter c) ..< length (alter c')]) # as, c'')))"

text \<open>
  What a run leaves behind, for inspection: the answers, and the edits in the sink at the
  end, each with its position, its text and whether it is active.
\<close>

definition edits_view :: "core \<Rightarrow> (int \<times> string \<times> bool) list" where
  "edits_view c = map (\<lambda>e. (epos e, estr e, active c e)) (alter c)"

definition served ::
  "core \<Rightarrow> request list \<Rightarrow> error + ((string \<times> nat list) list \<times> (int \<times> string \<times> bool) list)" where
  "served c rs = map_sum id (\<lambda>(as, c'). (as, edits_view c')) (serve c rs)"

text \<open>The answers to the requests of a run that were made for one logical name.\<close>

definition answers_for :: "string \<Rightarrow> request list \<Rightarrow> (string \<times> nat list) list \<Rightarrow> (string \<times> nat list) list" where
  "answers_for variableName rs as = map snd (filter (\<lambda>(r, a). rname r = variableName) (zip rs as))"

text \<open>
  The table of helpers is well formed when the options object of every entry has been
  allocated and no two entries share one. \<open>reset\<close> establishes this (the table is empty)
  and every request keeps it.
\<close>

definition table_ok :: "core \<Rightarrow> bool" where
  "table_ok c =
     ((\<forall>n bv. bubbledVariables c n = Some bv \<longrightarrow> changesOptions bv < next_object c)
      \<and> (\<forall>n n' bv bv'. bubbledVariables c n = Some bv \<and> bubbledVariables c n' = Some bv'
             \<and> changesOptions bv = changesOptions bv' \<longrightarrow> n = n'))"

text \<open>
  Two invariants of a run, for the positions \<open>mine\<close> of the edits inserted so far for one
  logical name and one initialiser. In both the table holds the helper under its logical
  name with the identifier \<open>g\<close>, and every edit at a position of \<open>mine\<close> carries an
  allocated options object that is flagged inactive unless it is the current one of the
  helper. \<open>pair_tracked\<close> adds that at most one of these edits carries the current
  options object; \<open>pair_installed\<close> that exactly one does and that the current options
  object is not flagged.
\<close>

definition pair_installed :: "string \<Rightarrow> string \<Rightarrow> nat list \<Rightarrow> string \<Rightarrow> core \<Rightarrow> bool" where
  "pair_installed variableName variableInitValue mine g c =
     (\<exists>bv. bubbledVariables c variableName = Some bv \<and> bvalue bv = variableInitValue
        \<and> bname bv = g \<and> \<not> inactive c (changesOptions bv)
        \<and> (\<forall>i \<in> set mine. i < length (alter c)
              \<and> (\<exists>a. eoptions (alter c ! i) = Some a \<and> a < next_object c
                     \<and> (a \<noteq> changesOptions bv \<longrightarrow> inactive c a)))
        \<and> length (filter (\<lambda>i. eoptions (alter c ! i) = Some (changesOptions bv)) mine) = 1)"

definition pair_tracked :: "string \<Rightarrow> string \<Rightarrow> nat list \<Rightarrow> string \<Rightarrow> core \<Rightarrow> bool" where
  "pair_tracked variableName variableInitValue mine g c =
     (\<exists>bv. bubbledVariables c variableName = Some bv \<and> bvalue bv = variableInitValue
        \<and> bname bv = g
        \<and> (\<forall>i \<in> set mine. i < length (alter c)
              \<and> (\<exists>a. eoptions (alter c ! i) = Some a \<and> a < next_object c
                     \<and> (a \<noteq> changesOptions bv \<longrightarrow> inactive c a)))
        \<and> length (filter (\<lambda>i. eoptions (alter c ! i) = Some (changesOptions bv)) mine) \<le> 1)"

text \<open>
  The requests of the three classes of the program \<open>p5\<close> extended by a class in \<open>g\<close>:
  the class in \<open>b\<close>, the one in \<open>g\<close> and the one in \<open>a\<close> each ask for \<open>DP\<close> and then for
  \<open>MIXIN\<close> (the text of the mixin function is shortened to \<open>function(t,s){}\<close>).
\<close>

definition rq :: "scope \<Rightarrow> string \<Rightarrow> string \<Rightarrow> request" where
  "rq s n v = \<lparr>rscope = s, rname = n, rvalue = v, risFunction = False\<rparr>"

definition p5_requests :: "request list" where
  "p5_requests =
     [rq p5_b_body_scope ''DP'' ''Object.defineProperty'',
      rq p5_b_body_scope ''MIXIN'' ''function(t,s){}'',
      rq p5_g_body_scope ''DP'' ''Object.defineProperty'',
      rq p5_g_body_scope ''MIXIN'' ''function(t,s){}'',
      rq p5_a_body_scope ''DP'' ''Object.defineProperty'',
      rq p5_a_body_scope ''MIXIN'' ''function(t,s){}'']"

text \<open>
  The prototype wiring of the two classes of \<open>p5\<close>, neither with a superclass or an
  accessor, in the order of the traversal: \<open>X\<close> in \<open>b\<close>, then \<open>Y\<close> in \<open>a\<close>; with the
  two texts, the edits in the sink at the end and the scope that then holds the helper
  \<open>DP\<close>. (Before it calls \<open>createPrototypeString\<close>, \<open>replaceClassBody\<close> makes the same
  request for \<open>DP\<close> from the same scope in \<open>createNames\<close>.)
\<close>

definition p5_wiring ::
  "error + (string \<times> string \<times> (int \<times> string \<times> bool) list \<times> scope option)" where
  "p5_wiring =
     (case createPrototypeString p5_core p5_X ''X'' None [] of
        Inl e \<Rightarrow> Inl e
      | Inr (wiringX, c1) \<Rightarrow>
          (case createPrototypeString c1 p5_Y ''Y'' None [] of
             Inl e \<Rightarrow> Inl e
           | Inr (wiringY, c2) \<Rightarrow>
               Inr (wiringX, wiringY, edits_view c2,
                    map_option bscope (bubbledVariables c2 ''DP''))))"

section \<open>Properties of the name registry\<close>

lemma unique_loop_least:
  "\<exists>n\<ge>cnt. unique_loop ids flt name cnt = genName name n
        \<and> \<not> taken ids flt (genName name n)
        \<and> (\<forall>m. cnt \<le> m \<and> m < n \<longrightarrow> taken ids flt (genName name m))"
proof (induction ids flt name cnt rule: unique_loop.induct)
  case (1 ids flt name cnt)
  show ?case
  proof (cases "taken ids flt (genName name cnt)")
    case False
    then have "unique_loop ids flt name cnt = genName name cnt"
      by (simp add: unique_loop.simps [of ids flt name cnt])
    with False show ?thesis by auto
  next
    case True
    then have u: "unique_loop ids flt name cnt = unique_loop ids flt name (cnt + 1)"
      by (simp add: unique_loop.simps [of ids flt name cnt])
    from "1.IH" True obtain n where n: "cnt + 1 \<le> n"
      "unique_loop ids flt name (cnt + 1) = genName name n"
      "\<not> taken ids flt (genName name n)"
      "\<forall>m. cnt + 1 \<le> m \<and> m < n \<longrightarrow> taken ids flt (genName name m)"
      by auto
    have "\<forall>m. cnt \<le> m \<and> m < n \<longrightarrow> taken ids flt (genName name m)"
    proof (intro allI impI)
      fix m assume m: "cnt \<le> m \<and> m < n"
      show "taken ids flt (genName name m)"
      proof (cases "m = cnt")
        case True with \<open>taken ids flt (genName name cnt)\<close> show ?thesis by simp
      next
        case False with m n(4) show ?thesis by simp
      qed
    qed
    with n u show ?thesis by (intro exI [of _ n]) simp
  qed
qed

lemma unique_loop_free:
  "\<not> taken ids flt (genName name cnt) \<Longrightarrow> unique_loop ids flt name cnt = genName name cnt"
  by (simp add: unique_loop.simps [of ids flt name cnt])

lemma unique_loop_taken:
  "taken ids flt (genName name cnt) \<Longrightarrow>
     unique_loop ids flt name cnt = unique_loop ids flt name (cnt + 1)"
  by (simp add: unique_loop.simps [of ids flt name cnt])

lemma numberToString_digits:
  "numberToString 0 = ''0''" "numberToString 1 = ''1''" "numberToString 2 = ''2''"
  "numberToString 3 = ''3''"
  by (simp_all add: numberToString.simps digit_def)

lemma unique_loop_not_taken: "\<not> taken ids flt (unique_loop ids flt name cnt)"
  using unique_loop_least [of cnt ids flt name] by auto

lemma unique_declaring:
  "unique c name True flt =
     Inr (unique_loop (allIdentifiers c) flt name 0,
          c\<lparr>allIdentifiers := ss_add (allIdentifiers c) (unique_loop (allIdentifiers c) flt name 0)\<rparr>)"
  by (simp add: unique_def Let_def)

lemma unique_declaring_fresh: "unique_loop (allIdentifiers c) flt name 0 \<notin> set (allIdentifiers c)"
  using unique_loop_not_taken [of "allIdentifiers c" flt name 0]
  by (simp add: taken_def ss_has_def)

lemma set_ss_add: "set (ss_add s x) = insert x (set s)"
  by (auto simp: ss_add_def)

lemma minted_registry:
  "minted c ops = (gs, c') \<Longrightarrow> set (allIdentifiers c) \<union> set gs \<subseteq> set (allIdentifiers c')"
proof (induction c ops arbitrary: gs c' rule: minted.induct)
  case (1 c)
  then show ?case by simp
next
  case (2 c x ops)
  from "2.prems" "2.IH" [of gs c'] show ?case by (auto simp: set_ss_add)
next
  case (3 c name flt ops)
  let ?g = "unique_loop (allIdentifiers c) flt name 0"
  let ?c1 = "c\<lparr>allIdentifiers := ss_add (allIdentifiers c) ?g\<rparr>"
  obtain gs1 c1 where r: "minted ?c1 ops = (gs1, c1)" by (cases "minted ?c1 ops")
  from "3.IH" [OF unique_declaring refl r]
  have "set (allIdentifiers ?c1) \<union> set gs1 \<subseteq> set (allIdentifiers c1)" .
  moreover from "3.prems" r have "gs = gs1 @ [?g]" "c' = c1"
    by (simp_all add: unique_declaring)
  ultimately show ?case by (auto simp: set_ss_add)
qed

lemma minted_distinct_fresh:
  "minted c ops = (gs, c') \<Longrightarrow> distinct gs \<and> set gs \<inter> set (allIdentifiers c) = {}"
proof (induction c ops arbitrary: gs c' rule: minted.induct)
  case (1 c)
  then show ?case by simp
next
  case (2 c x ops)
  from "2.prems" "2.IH" [of gs c'] show ?case by (auto simp: set_ss_add)
next
  case (3 c name flt ops)
  let ?g = "unique_loop (allIdentifiers c) flt name 0"
  let ?c1 = "c\<lparr>allIdentifiers := ss_add (allIdentifiers c) ?g\<rparr>"
  obtain gs1 c1 where r: "minted ?c1 ops = (gs1, c1)" by (cases "minted ?c1 ops")
  from "3.IH" [OF unique_declaring refl r]
  have ih: "distinct gs1" "set gs1 \<inter> set (allIdentifiers ?c1) = {}" by simp_all
  from "3.prems" r have gs: "gs = gs1 @ [?g]" by (simp add: unique_declaring)
  have "?g \<notin> set gs1" using ih(2) by (auto simp: set_ss_add)
  moreover have "?g \<notin> set (allIdentifiers c)" by (rule unique_declaring_fresh)
  moreover have "set gs1 \<inter> set (allIdentifiers c) = {}" using ih(2) by (auto simp: set_ss_add)
  ultimately show ?case using ih(1) gs by auto
qed


lemma unique_loop_examples:
  "unique_loop [''a'', ''a$0''] None ''a'' 0 = ''a$1''"
  "unique_loop [''a'', ''a$0'', ''a$1'', ''a$2''] None ''a'' 0 = ''a$3''"
  "unique_loop [''a'', ''a$0'', ''a$1'', ''a$2'', ''a$3''] (Some [''b$0'']) ''b'' 0 = ''b$1''"
  by code_simp+

lemma minted_length: "length (fst (minted c ops)) = length (filter is_Mint ops)"
proof (induction c ops rule: minted.induct)
  case (1 c)
  show ?case by simp
next
  case (2 c x ops)
  then show ?case by simp
next
  case (3 c name flt ops)
  let ?c1 = "c\<lparr>allIdentifiers := ss_add (allIdentifiers c) (unique_loop (allIdentifiers c) flt name 0)\<rparr>"
  obtain gs1 c1 where r: "minted ?c1 ops = (gs1, c1)" by (cases "minted ?c1 ops")
  from "3.IH" [OF unique_declaring refl] r have "length gs1 = length (filter is_Mint ops)"
    by simp
  with r show ?case by (simp add: unique_declaring)
qed

text \<open>
  Claim C4. A declaring request \<open>unique(name, true, filter)\<close> always returns; the
  identifier it returns is not in the registry at that moment and is reserved there at
  once. Hence in any run of declaring requests and registrations of program names on one
  registry (no \<open>reset\<close> in between), every declaring request is answered, the identifiers
  returned are pairwise different, and none of them was in the registry the run started
  from.
\<close>

theorem unique_mints_distinct_identifiers:
  "(\<exists>g. unique c name True additionalFilter
          = Inr (g, c\<lparr>allIdentifiers := ss_add (allIdentifiers c) g\<rparr>)
        \<and> \<not> ss_has (allIdentifiers c) g
        \<and> ss_has (ss_add (allIdentifiers c) g) g)
   \<and> length (fst (minted c ops)) = length (filter is_Mint ops)
   \<and> distinct (fst (minted c ops))
   \<and> set (fst (minted c ops)) \<inter> set (allIdentifiers c) = {}"
proof -
  have "minted c ops = (fst (minted c ops), snd (minted c ops))" by simp
  from minted_distinct_fresh [OF this]
  have "distinct (fst (minted c ops))" "set (fst (minted c ops)) \<inter> set (allIdentifiers c) = {}"
    by simp_all
  moreover have "\<not> ss_has (allIdentifiers c) (unique_loop (allIdentifiers c) additionalFilter name 0)"
    using unique_declaring_fresh [of c additionalFilter name] by (simp add: ss_has_def)
  moreover have "ss_has (ss_add (allIdentifiers c) g) g" for g
    by (simp add: ss_has_def set_ss_add)
  ultimately show ?thesis
    using unique_declaring [of c name additionalFilter] minted_length [of c ops] by simp
qed

theorem unique_mints_distinct_identifiers_witness:
  "fst (minted core_a [Mint ''a'' None, Register ''a$2'', Mint ''a'' None, Mint ''b'' (Some [''b$0''])])
     = [''b$1'', ''a$3'', ''a$1'']
   \<and> distinct [''b$1'', ''a$3'', ''a$1'']"
proof -
  have "fst (minted core_a
      [Mint ''a'' None, Register ''a$2'', Mint ''a'' None, Mint ''b'' (Some [''b$0''])])
     = [''b$1'', ''a$3'', ''a$1'']"
    by (simp add: core_a_def loaded_core_def unique_def unique_loop_examples ss_add_def Let_def)
  with unique_mints_distinct_identifiers [of core_a "''a''" None
      "[Mint ''a'' None, Register ''a$2'', Mint ''a'' None, Mint ''b'' (Some [''b$0''])]"]
  show ?thesis by simp
qed

text \<open>
  Claim C10. When its assertion holds (the request declares, or the base name is in the
  registry), \<open>unique\<close> returns \<open>name + "$" + n\<close> for the least \<open>n \<ge> 0\<close> whose suffixed name
  is neither in the registry nor in the additional filter, when one is given. The result
  is never the bare base name.
\<close>

theorem unique_least_suffix:
  assumes "newVariable \<or> ss_has (allIdentifiers c) name"
  shows "\<exists>n g c'. unique c name newVariable additionalFilter = Inr (g, c')
           \<and> g = name @ ''$'' @ numberToString n
           \<and> \<not> ss_has (allIdentifiers c) g
           \<and> (\<forall>f. additionalFilter = Some f \<longrightarrow> \<not> ss_has f g)
           \<and> (\<forall>m<n. ss_has (allIdentifiers c) (name @ ''$'' @ numberToString m)
                    \<or> (\<exists>f. additionalFilter = Some f \<and> ss_has f (name @ ''$'' @ numberToString m)))
           \<and> g \<noteq> name"
proof -
  from unique_loop_least [of 0 "allIdentifiers c" additionalFilter name]
  obtain n where n: "unique_loop (allIdentifiers c) additionalFilter name 0 = genName name n"
    "\<not> taken (allIdentifiers c) additionalFilter (genName name n)"
    "\<forall>m. m < n \<longrightarrow> taken (allIdentifiers c) additionalFilter (genName name m)"
    by auto
  let ?g = "genName name n"
  let ?c' = "if newVariable then c\<lparr>allIdentifiers := ss_add (allIdentifiers c) ?g\<rparr> else c"
  have 1: "unique c name newVariable additionalFilter = Inr (?g, ?c')"
    using assms n(1) by (simp add: unique_def Let_def)
  have 2: "\<not> ss_has (allIdentifiers c) ?g" "\<forall>f. additionalFilter = Some f \<longrightarrow> \<not> ss_has f ?g"
    using n(2) by (auto simp: taken_def)
  have 3: "\<forall>m<n. ss_has (allIdentifiers c) (genName name m)
             \<or> (\<exists>f. additionalFilter = Some f \<and> ss_has f (genName name m))"
    using n(3) by (auto simp: taken_def)
  have 4: "?g \<noteq> name" by (simp add: genName_def)
  from 1 2 3 4 show ?thesis unfolding genName_def by blast
qed

theorem unique_least_suffix_witness:
  "ss_has (allIdentifiers core_a) ''a''
   \<and> unique core_a ''a'' False None = Inr (''a$1'', core_a)
   \<and> (\<exists>n. ''a$1'' = ''a'' @ ''$'' @ numberToString n
          \<and> \<not> ss_has (allIdentifiers core_a) ''a$1''
          \<and> (\<forall>m<n. ss_has (allIdentifiers core_a) (''a'' @ ''$'' @ numberToString m)))"
proof -
  have h: "ss_has (allIdentifiers core_a) ''a''" by (simp add: core_a_def ss_has_def)
  have e: "unique core_a ''a'' False None = Inr (''a$1'', core_a)"
    by (simp add: core_a_def loaded_core_def unique_def unique_loop_examples ss_has_def Let_def)
  from unique_least_suffix [of False core_a "''a''" None, OF disjI2 [OF h]] e
  have "\<exists>n. ''a$1'' = ''a'' @ ''$'' @ numberToString n
          \<and> \<not> ss_has (allIdentifiers core_a) ''a$1''
          \<and> (\<forall>m<n. ss_has (allIdentifiers core_a) (''a'' @ ''$'' @ numberToString m))"
    by auto
  with h e show ?thesis by simp
qed

section \<open>Properties of reference resolution\<close>

lemma lookup_decls: "decls c' = decls c \<Longrightarrow> lookup c' s name = lookup c s name"
  by (induction c s name rule: lookup.induct) (simp split: option.split)

lemma lookup_in_chain: "lookup c s name = Some d \<Longrightarrow> d \<in> set (scope_chain s)"
  by (induction c s name rule: lookup.induct) (auto split: if_splits option.splits)

lemma lookup_declares: "lookup c s name = Some d \<Longrightarrow> decls c (sid d) name \<noteq> None"
  by (induction c s name rule: lookup.induct) (auto split: if_splits option.splits)

lemma hasFunctionScopeBetween_chain:
  "d \<in> set (scope_chain s) \<Longrightarrow>
     hasFunctionScopeBetween s d
       = Some (list_ex (\<lambda>t. isFunction (ninfo (snode t))) (scopes_between s d))"
  by (induction s d rule: hasFunctionScopeBetween.induct)
     (auto simp: scopes_between_def split: option.splits)

text \<open>
  The rule of the use-before-declaration check. For a reference that resolves to a \<open>let\<close>
  or \<open>const\<close> declaration visible only from a position after the reference,
  \<open>setupReferences\<close> fails
  with the use-before-declaration error exactly when none of the scopes from the scope of
  the use up to, and without, the declaring scope is owned by a function; when one is, it
  records the name and resolves the reference to the declaring scope.
\<close>

theorem setupReferences_rejects_iff_no_function_between:
  assumes ref: "isReference c node = Inr True"
    and sc: "scope_of c (nid (ninfo node)) = Some nscope"
    and lk: "lookup c nscope (nname (ninfo node)) = Some declaring"
    and kd: "isConstLet (getKind c declaring (nname (ninfo node)))"
    and fp: "getFromPos c declaring (nname (ninfo node)) = Some allowedFromPos"
    and lt: "range0 (ninfo node) < allowedFromPos"
  shows "setupReferences c node =
           (if list_ex (\<lambda>t. isFunction (ninfo (snode t))) (scopes_between nscope declaring)
            then Inr (c\<lparr>allIdentifiers := ss_add (allIdentifiers c) (nname (ninfo node)),
                        refToScope := (refToScope c)(nid (ninfo node) := Some declaring)\<rparr>)
            else Inl (UseBeforeDeclarationError (line (ninfo node)) (nname (ninfo node))))"
proof -
  let ?c1 = "c\<lparr>allIdentifiers := ss_add (allIdentifiers c) (nname (ninfo node))\<rparr>"
  have l1: "lookup ?c1 nscope (nname (ninfo node)) = Some declaring"
    using lk lookup_decls [of ?c1 c] by simp
  have k1: "isConstLet (getKind ?c1 declaring (nname (ninfo node)))"
    using kd by (simp add: getKind_def)
  have f1: "getFromPos ?c1 declaring (nname (ninfo node)) = Some allowedFromPos"
    using fp by (simp add: getFromPos_def)
  have h: "hasFunctionScopeBetween nscope declaring
      = Some (list_ex (\<lambda>t. isFunction (ninfo (snode t))) (scopes_between nscope declaring))"
    by (rule hasFunctionScopeBetween_chain [OF lookup_in_chain [OF lk]])
  show ?thesis
    unfolding setupReferences_def using ref sc l1 k1 f1 lt h
    by (simp add: Let_def)
qed

text \<open>
  The two directions at programs: the reference inside the function body of
  \<open>function f(){ return x; } let x = 1; f();\<close> precedes the declaration and is accepted,
  the scope of the function lying between; the reference of \<open>x; let x = 1;\<close> is in the
  declaring scope itself and is rejected.
\<close>

theorem setupReferences_rejects_iff_no_function_between_witness:
  "setupReferences p2_core p2_x
     = Inr (p2_core\<lparr>allIdentifiers := [''x''],
                     refToScope := (refToScope p2_core)(6 := Some p2_scope)\<rparr>)
   \<and> list_ex (\<lambda>t. isFunction (ninfo (snode t))) (scopes_between p2_body_scope p2_scope)
   \<and> setupReferences p8_core p8_x = Inl (UseBeforeDeclarationError 1 ''x'')
   \<and> scopes_between p8_scope p8_scope = []"
proof -
  have a1: "isReference p2_core p2_x = Inr True"
    by (simp add: isReference_def p2_defs scope_add_def isFunction_def Let_def)
  have a2: "scope_of p2_core (nid (ninfo p2_x)) = Some p2_body_scope"
    by (simp add: p2_defs scope_add_def)
  have a3: "lookup p2_core p2_body_scope (nname (ninfo p2_x)) = Some p2_scope"
    by (simp add: p2_defs scope_add_def)
  have a4: "isConstLet (getKind p2_core p2_scope (nname (ninfo p2_x)))"
    by (simp add: p2_defs scope_add_def getKind_def isConstLet_def)
  have a5: "getFromPos p2_core p2_scope (nname (ninfo p2_x)) = Some 31"
    by (simp add: p2_defs scope_add_def getFromPos_def)
  have a6: "range0 (ninfo p2_x) < 31" by (simp add: p2_defs)
  have a7: "list_ex (\<lambda>t. isFunction (ninfo (snode t))) (scopes_between p2_body_scope p2_scope)"
    by (simp add: scopes_between_def p2_defs isFunction_def)
  have b1: "isReference p8_core p8_x = Inr True"
    by (simp add: isReference_def p8_defs scope_add_def isFunction_def Let_def)
  have b2: "scope_of p8_core (nid (ninfo p8_x)) = Some p8_scope"
    by (simp add: p8_defs scope_add_def)
  have b3: "lookup p8_core p8_scope (nname (ninfo p8_x)) = Some p8_scope"
    by (simp add: p8_defs scope_add_def)
  have b4: "isConstLet (getKind p8_core p8_scope (nname (ninfo p8_x)))"
    by (simp add: p8_defs scope_add_def getKind_def isConstLet_def)
  have b5: "getFromPos p8_core p8_scope (nname (ninfo p8_x)) = Some 8"
    by (simp add: p8_defs scope_add_def getFromPos_def)
  have b6: "range0 (ninfo p8_x) < 8" by (simp add: p8_defs)
  have b7: "scopes_between p8_scope p8_scope = []"
    by (simp add: scopes_between_def p8_defs)
  have n2: "nname (ninfo p2_x) = ''x''" "nid (ninfo p2_x) = 6" "allIdentifiers p2_core = []"
    by (simp_all add: p2_defs scope_add_def)
  have n8: "nname (ninfo p8_x) = ''x''" "line (ninfo p8_x) = 1"
    by (simp_all add: p8_defs)
  from setupReferences_rejects_iff_no_function_between [OF a1 a2 a3 a4 a5 a6] a7 n2
  have r2: "setupReferences p2_core p2_x
     = Inr (p2_core\<lparr>allIdentifiers := [''x''],
                     refToScope := (refToScope p2_core)(6 := Some p2_scope)\<rparr>)"
    by (simp add: ss_add_def)
  from setupReferences_rejects_iff_no_function_between [OF b1 b2 b3 b4 b5 b6] b7 n8
  have r8: "setupReferences p8_core p8_x = Inl (UseBeforeDeclarationError 1 ''x'')"
    by simp
  from r2 a7 r8 b7 show ?thesis by simp
qed

text \<open>
  A reference that does not stand before the position recorded for its declaration is
  not checked further: it is registered and resolved.
\<close>

lemma setupReferences_accepts_from_recorded_position:
  assumes ref: "isReference c node = Inr True"
    and sc: "scope_of c (nid (ninfo node)) = Some nscope"
    and lk: "lookup c nscope (nname (ninfo node)) = Some declaring"
    and fp: "getFromPos c declaring (nname (ninfo node)) = Some allowedFromPos"
    and ge: "allowedFromPos \<le> range0 (ninfo node)"
  shows "setupReferences c node =
           Inr (c\<lparr>allIdentifiers := ss_add (allIdentifiers c) (nname (ninfo node)),
                   refToScope := (refToScope c)(nid (ninfo node) := Some declaring)\<rparr>)"
proof -
  let ?c1 = "c\<lparr>allIdentifiers := ss_add (allIdentifiers c) (nname (ninfo node))\<rparr>"
  have l1: "lookup ?c1 nscope (nname (ninfo node)) = Some declaring"
    using lk lookup_decls [of ?c1 c] by simp
  have f1: "getFromPos ?c1 declaring (nname (ninfo node)) = Some allowedFromPos"
    using fp by (simp add: getFromPos_def)
  show ?thesis
    unfolding setupReferences_def using ref sc l1 f1 ge
    by (simp add: Let_def)
qed

text \<open>
  Claim C1, at the program \<open>let x = x;\<close>, which the claim says fails. The reference in
  the initialiser stands at position 8 and resolves to the \<open>let\<close> declaration of the same
  declarator. \<open>createScopes\<close> passes \<open>variable.range[1]\<close>, the end of the declared
  identifier (5), to \<open>add\<close> as the position from which \<open>x\<close> is visible, not the end of
  the declarator (9); the test \<open>referencedAtPos < allowedFromPos\<close> is false and the error
  is not raised. The whole resolution pass accepts the program and resolves the
  initialiser to the declaration it initialises.
\<close>

theorem setupReferences_accepts_let_x_x:
  "traverse_pre setupReferences p1_core
       [p1_program, p1_declaration, p1_declarator, p1_x_id, p1_x_init]
     = Inr (p1_core\<lparr>allIdentifiers := [''x''],
                     refToScope := (refToScope p1_core)(5 := Some p1_scope)\<rparr>)
   \<and> lookup p1_core p1_scope ''x'' = Some p1_scope
   \<and> getKind p1_core p1_scope ''x'' = Some ''let''
   \<and> range0 (ninfo p1_x_init) = 8
   \<and> scopes_between p1_scope p1_scope = []"
  by (simp add: setupReferences_def isReference_def p1_defs scope_add_def isFunction_def
      getKind_def getFromPos_def isConstLet_def ss_add_def Let_def scopes_between_def)

section \<open>Properties of const-write detection\<close>

lemma isReference_write_target:
  assumes "ntype (ninfo node) = ''Identifier''"
    and "nparent node = Some (Node parent grandparent)"
    and "ntype parent = ''AssignmentExpression'' \<or> ntype parent = ''UpdateExpression''"
  shows "isReference c node = Inr True"
  using assms by (auto simp: isReference_def isFunction_def Let_def)

text \<open>
  Claim C7. A node that is the \<open>left\<close> of an assignment expression or the \<open>argument\<close>
  of an update expression, and whose name resolves to a declaration of kind \<open>const\<close>,
  makes \<open>detectConstAssignment\<close> fail with the const-reassignment error for that name.
\<close>

theorem detectConstAssignment_rejects_const_write:
  assumes "ntype (ninfo node) = ''Identifier''"
    and "nparent node = Some (Node parent grandparent)"
    and "(ntype parent = ''AssignmentExpression'' \<and> left_ref parent = Some (nid (ninfo node)))
         \<or> (ntype parent = ''UpdateExpression'' \<and> argument_ref parent = Some (nid (ninfo node)))"
    and "scope_of c (nid (ninfo node)) = Some nscope"
    and "lookup c nscope (nname (ninfo node)) = Some declaring"
    and "getKind c declaring (nname (ninfo node)) = Some ''const''"
  shows "detectConstAssignment c node
           = Inl (ConstReassignmentError (line (ninfo node)) (nname (ninfo node)))"
proof -
  have "isReference c node = Inr True"
    using assms(1-3) by (intro isReference_write_target) auto
  then have "isLvalue c node = Inr True"
    using assms(2,3) by (auto simp: isLvalue_def)
  then show ?thesis
    using assms(4-6) by (simp add: detectConstAssignment_def)
qed

theorem detectConstAssignment_rejects_const_write_witness:
  "detectConstAssignment p3_core p3_c = Inl (ConstReassignmentError 1 ''c'')
   \<and> lookup p3_core p3_scope ''c'' = Some p3_scope
   \<and> getKind p3_core p3_scope ''c'' = Some ''const''"
proof -
  have 1: "ntype (ninfo p3_c) = ''Identifier''" by (simp add: p3_defs)
  have 2: "nparent p3_c = Some (Node (ninfo p3_assignment) (Some p3_statement))"
    by (simp add: p3_defs)
  have 3: "(ntype (ninfo p3_assignment) = ''AssignmentExpression''
              \<and> left_ref (ninfo p3_assignment) = Some (nid (ninfo p3_c)))
         \<or> (ntype (ninfo p3_assignment) = ''UpdateExpression''
              \<and> argument_ref (ninfo p3_assignment) = Some (nid (ninfo p3_c)))"
    by (simp add: p3_defs)
  have 4: "scope_of p3_core (nid (ninfo p3_c)) = Some p3_scope"
    by (simp add: p3_defs scope_add_def)
  have 5: "lookup p3_core p3_scope (nname (ninfo p3_c)) = Some p3_scope"
    by (simp add: p3_defs scope_add_def)
  have 6: "getKind p3_core p3_scope (nname (ninfo p3_c)) = Some ''const''"
    by (simp add: p3_defs scope_add_def getKind_def)
  from detectConstAssignment_rejects_const_write [OF 1 2 3 4 5 6] 5 6
  show ?thesis by (simp add: p3_defs)
qed

section \<open>Properties of the closure-in-loop check\<close>

lemma closure_walk_loop_reached_first:
  "closure_walk fn loop start = (\<not> loop_reached_first fn loop start)"
  by (induction fn loop start rule: closure_walk.induct)
     (auto simp: loop_reached_first_def split: option.splits)

text \<open>
  Claim C2. The checker is inside a loop and has entered a function (\<open>outermostLoop\<close> is
  set, \<open>functions\<close> is not empty), and the node is an identifier that refers to a \<open>let\<close>
  or \<open>const\<close> binding. Then \<open>detectLoopClosuresPre\<close> fails with the loop-closure error
  exactly when the walk from the node that owns the declaring scope reaches the outermost
  loop before the innermost function; otherwise it returns with the state unchanged.
\<close>

theorem detectLoopClosuresPre_rejects_iff_loop_first:
  assumes "outermostLoop c = Some loop"
    and "functions' c \<noteq> []"
    and "ntype (ninfo node) = ''Identifier''"
    and "isReference c node = Inr True"
    and "refToScope c (nid (ninfo node)) = Some declaring"
    and "isConstLet (getKind c declaring (nname (ninfo node)))"
  shows "detectLoopClosuresPre c node =
           (if loop_reached_first (last (functions' c)) loop (snode declaring)
            then Inl (UnsupportedLoopClosureError (line (ninfo node)) (nname (ninfo node)))
            else Inr c)"
  using assms
  by (simp add: detectLoopClosuresPre_def isLoop_def isFunction_def Let_def
      closure_walk_loop_reached_first)

theorem detectLoopClosuresPre_rejects_iff_loop_first_witness:
  "detectLoopClosuresPre p4_core p4_i = Inl (UnsupportedLoopClosureError 1 ''i'')
   \<and> loop_reached_first p4_function p4_for (snode p4_for_scope)
   \<and> outermostLoop p4_core = Some p4_for
   \<and> last (functions' p4_core) = p4_function"
proof -
  have 1: "outermostLoop p4_core = Some p4_for" by (simp add: p4_core_def)
  have 2: "functions' p4_core \<noteq> []" by (simp add: p4_core_def)
  have 3: "ntype (ninfo p4_i) = ''Identifier''" by (simp add: p4_defs)
  have 4: "isReference p4_core p4_i = Inr True" by (simp add: isReference_def p4_core_def p4_i_def info_def)
  have 5: "refToScope p4_core (nid (ninfo p4_i)) = Some p4_for_scope"
    by (simp add: p4_core_def p4_i_def info_def)
  have 6: "isConstLet (getKind p4_core p4_for_scope (nname (ninfo p4_i)))"
    by (simp add: p4_defs scope_add_def getKind_def isConstLet_def)
  have 7: "loop_reached_first p4_function p4_for (snode p4_for_scope)"
    by (simp add: loop_reached_first_def p4_defs)
  have 8: "last (functions' p4_core) = p4_function" by (simp add: p4_core_def)
  from detectLoopClosuresPre_rejects_iff_loop_first [OF 1 2 3 4 5 6] 1 7 8
  show ?thesis by (simp add: p4_i_def info_def)
qed

section \<open>Properties of the lifecycle\<close>

text \<open>
  Claim C9, as amended. \<open>reset\<close> empties the name registry and the table of shared
  helpers. \<open>setup\<close> calls \<open>reset\<close> only while the latch \<open>__isInit\<close> is unset, that is the
  first time; once the latch is set, \<open>setup\<close> leaves the registry and the table as the
  previous unit left them.
\<close>

theorem setup_resets_only_first_time:
  "allIdentifiers (core_reset c) = [] \<and> bubbledVariables (core_reset c) = Map.empty
   \<and> isInit (core_setup a ast opt s c)
   \<and> allIdentifiers (core_setup a ast opt s c) = (if isInit c then allIdentifiers c else [])
   \<and> bubbledVariables (core_setup a ast opt s c)
        = (if isInit c then bubbledVariables c else Map.empty)"
  by (simp add: core_setup_def core_reset_def Let_def)

lemma unique_loop_x: "unique_loop [] None ''x'' 0 = ''x$0''"
  by code_simp

theorem setup_resets_only_first_time_witness:
  "isInit first_unit_end
   \<and> allIdentifiers (core_setup [] p1_program no_options [] first_unit_end) = [''x$0'']
   \<and> allIdentifiers (core_setup [] p1_program no_options [] loaded_core) = []"
  using setup_resets_only_first_time [of first_unit_end "[]" p1_program no_options "[]"]
    setup_resets_only_first_time [of loaded_core "[]" p1_program no_options "[]"]
  by (simp add: first_unit_end_def unique_def core_setup_def core_reset_def loaded_core_def
      unique_loop_x ss_add_def Let_def)

theorem setup_keeps_registry_counterexample:
  "\<not> (allIdentifiers (core_setup [] p1_program no_options [] first_unit_end) = []
      \<and> bubbledVariables (core_setup [] p1_program no_options [] first_unit_end) = Map.empty)"
  by (simp add: first_unit_end_def unique_def core_setup_def core_reset_def loaded_core_def
      unique_loop_x ss_add_def Let_def)

section \<open>Properties of the shared helpers\<close>

text \<open>
  \<open>findParentForScopes\<close> changes nothing but the marks \<open>$__path\<close> and the counter
  \<open>UUID\<close>.
\<close>

lemma for_scopes_frame:
  "for_scopes pid i scopes n c = Inr (r, scopes', n', c') \<Longrightarrow> \<exists>m. c' = c\<lparr>path_mark := m\<rparr>"
proof (induction pid i scopes n c arbitrary: r scopes' n' c' rule: for_scopes.induct)
  case (1 pid i scopes n c)
  show ?case
  proof (cases "i < n \<and> i < length scopes")
    case False
    with "1.prems" have "c' = c"
      by (auto simp: for_scopes.simps [of pid i scopes n c] split: if_splits)
    then show ?thesis by (intro exI [of _ "path_mark c"]) simp
  next
    case True
    then obtain h where h: "closestHoistScope (scopes ! i) = Some h"
      using "1.prems" by (auto simp: for_scopes.simps [of pid i scopes n c] Let_def split: option.splits)
    show ?thesis
    proof (cases "path_mark c (sid h) = Some pid")
      case True
      with \<open>i < n \<and> i < length scopes\<close> h "1.prems" have "c' = c"
        by (auto simp: for_scopes.simps [of pid i scopes n c] Let_def)
      then show ?thesis by (intro exI [of _ "path_mark c"]) simp
    next
      case nm: False
      let ?s' = "if h = scopes ! i then sparent (scopes ! i) else Some (scopes ! i)"
      show ?thesis
      proof (cases ?s')
        case None
        with \<open>i < n \<and> i < length scopes\<close> h nm "1.prems"
        have "for_scopes pid i (splice1 (int i - 1) scopes) (n - 1) c = Inr (r, scopes', n', c')"
          by (simp add: for_scopes.simps [of pid i scopes n c] Let_def)
        from "1.IH"(1) [OF _ _ refl h refl nm None this] \<open>i < n \<and> i < length scopes\<close>
        show ?thesis by simp
      next
        case (Some sc)
        let ?c1 = "c\<lparr>path_mark := (path_mark c)(sid h := Some pid)\<rparr>"
        from Some \<open>i < n \<and> i < length scopes\<close> h nm "1.prems"
        have "for_scopes pid (i + 1) (scopes[i := sc]) n ?c1 = Inr (r, scopes', n', c')"
          by (simp add: for_scopes.simps [of pid i scopes n c] Let_def)
        from "1.IH"(2) [OF _ _ refl h refl nm Some this] \<open>i < n \<and> i < length scopes\<close>
        obtain m where "c' = ?c1\<lparr>path_mark := m\<rparr>" by auto
        then show ?thesis by (intro exI [of _ m]) simp
      qed
    qed
  qed
qed

lemma while_scopes_frame:
  "while_scopes pid k scopes n c = Inr (r, c') \<Longrightarrow> \<exists>m. c' = c\<lparr>path_mark := m\<rparr>"
proof (induction pid k scopes n c arbitrary: r c' rule: while_scopes.induct)
  case (1 pid k scopes n c)
  show ?case
  proof (cases "n \<noteq> 0 \<and> k + 1 < 1000")
    case False
    with "1.prems" have "c' = c" by (auto simp: while_scopes.simps [of pid k scopes n c])
    then show ?thesis by (intro exI [of _ "path_mark c"]) simp
  next
    case True
    then obtain q scopes1 n1 c1 where f: "for_scopes pid 0 scopes n c = Inr (q, scopes1, n1, c1)"
      using "1.prems" by (auto simp: while_scopes.simps [of pid k scopes n c] split: sum.splits)
    from for_scopes_frame [OF f] obtain m1 where m1: "c1 = c\<lparr>path_mark := m1\<rparr>" by auto
    show ?thesis
    proof (cases q)
      case (Some p)
      with True f "1.prems" have "c' = c1" by (simp add: while_scopes.simps [of pid k scopes n c])
      with m1 show ?thesis by auto
    next
      case None
      with True f "1.prems" have "while_scopes pid (k + 1) scopes1 n1 c1 = Inr (r, c')"
        by (simp add: while_scopes.simps [of pid k scopes n c])
      from "1.IH" [OF True f refl _ refl refl this] None obtain m where "c' = c1\<lparr>path_mark := m\<rparr>"
        by auto
      with m1 show ?thesis by (intro exI [of _ m]) simp
    qed
  qed
qed

lemma findParentForScopes_frame:
  "findParentForScopes c scopes = Inr (p, c') \<Longrightarrow> \<exists>m u. c' = c\<lparr>path_mark := m, UUID := u\<rparr>"
proof -
  assume a: "findParentForScopes c scopes = Inr (p, c')"
  show ?thesis
  proof (cases "hoist_scopes scopes")
    case (Inl e)
    with a show ?thesis by (simp add: findParentForScopes_def split: if_splits)
  next
    case (Inr r)
    show ?thesis
    proof (cases r)
      case (Found s)
      with Inr a have "c' = c" by (simp add: findParentForScopes_def split: if_splits)
      then show ?thesis by (intro exI [of _ "path_mark c"] exI [of _ "UUID c"]) simp
    next
      case (Continue hs)
      with Inr a obtain q where
        w: "while_scopes (UUID c) 0 hs (length scopes) (c\<lparr>UUID := UUID c + 1\<rparr>) = Inr (q, c')"
        by (auto simp: findParentForScopes_def split: if_splits sum.splits option.splits)
      from while_scopes_frame [OF w] obtain m where "c' = c\<lparr>UUID := UUID c + 1\<rparr>\<lparr>path_mark := m\<rparr>"
        by auto
      then show ?thesis by (intro exI [of _ m] exI [of _ "UUID c + 1"]) simp
    qed
  qed
qed


lemma create_fresh:
  assumes "createBubbledVariableDeclaration c scope name init isFn None = Inr (g, c')"
  shows "g = unique_loop (allIdentifiers c) None name 0
     \<and> bubbledVariables c' = (bubbledVariables c)(name \<mapsto> \<lparr>bname = g, bvalue = init,
           bisFunction = isFn, bscope = scope, changesOptions = next_object c\<rparr>)
     \<and> inactive c' = (inactive c)(next_object c := False)
     \<and> next_object c' = next_object c + 1
     \<and> (\<exists>e. alter c' = alter c @ [e] \<and> eoptions e = Some (next_object c))"
  using assms
  by (auto simp: createBubbledVariableDeclaration_def unique_declaring Let_def
      createScopeVariableDeclaration_def scope_add_def split: sum.splits)

lemma create_rebase:
  assumes "createBubbledVariableDeclaration c scope x y z (Some (key, bv)) = Inr (g, c')"
  shows "g = bname bv
     \<and> bubbledVariables c' = (bubbledVariables c)(key \<mapsto> bv\<lparr>bscope := scope, changesOptions := next_object c\<rparr>)
     \<and> inactive c' = (inactive c)(next_object c := False)
     \<and> next_object c' = next_object c + 1
     \<and> (\<exists>e. alter c' = alter c @ [e] \<and> eoptions e = Some (next_object c))"
  using assms
  by (auto simp: createBubbledVariableDeclaration_def Let_def
      createScopeVariableDeclaration_def scope_add_def split: sum.splits)

lemma request_effect:
  assumes "bubbledVariableDeclaration c scope n v f = Inr (g, c')"
  shows "(c' = c \<and> (\<exists>bv. bubbledVariables c n = Some bv \<and> bvalue bv = v \<and> bname bv = g))
   \<or> (\<exists>bv bv' e. bubbledVariables c n = Some bv \<and> bvalue bv = v \<and> bname bv = g
          \<and> bname bv' = g \<and> bvalue bv' = v \<and> changesOptions bv' = next_object c
          \<and> bubbledVariables c' = (bubbledVariables c)(n \<mapsto> bv')
          \<and> inactive c' = ((inactive c)(changesOptions bv := True))(next_object c := False)
          \<and> next_object c' = next_object c + 1
          \<and> alter c' = alter c @ [e] \<and> eoptions e = Some (next_object c))
   \<or> (isBubbledVariableDeclaration c n v = None
        \<and> (\<exists>bv' e. bname bv' = g \<and> bvalue bv' = v \<and> changesOptions bv' = next_object c
          \<and> bubbledVariables c' = (bubbledVariables c)(n \<mapsto> bv')
          \<and> inactive c' = (inactive c)(next_object c := False)
          \<and> next_object c' = next_object c + 1
          \<and> alter c' = alter c @ [e] \<and> eoptions e = Some (next_object c)))"
proof -
  from assms obtain h where h: "closestHoistScope scope = Some h"
    by (auto simp: bubbledVariableDeclaration_def split: option.splits)
  show ?thesis
  proof (cases "isBubbledVariableDeclaration c n v")
    case None
    with assms h have "createBubbledVariableDeclaration c h n v f None = Inr (g, c')"
      by (simp add: bubbledVariableDeclaration_def)
    from create_fresh [OF this] None show ?thesis
      by (intro disjI2) (auto intro!: exI)
  next
    case (Some bv)
    then have bv: "bubbledVariables c n = Some bv" "bvalue bv = v"
      by (auto simp: isBubbledVariableDeclaration_def split: option.splits if_splits)
    show ?thesis
    proof (cases "lookup c h (bname bv) \<noteq> None")
      case True
      with assms h Some have "g = bname bv" "c' = c" by (auto simp: bubbledVariableDeclaration_def)
      with bv show ?thesis by simp
    next
      case False
      with assms h Some obtain p c1 where f: "findParentForScopes c [h, bscope bv] = Inr (p, c1)"
        and rb: "rebaseBubbledVariableDeclaration c1 p n = Inr (g, c')"
        by (auto simp: bubbledVariableDeclaration_def split: sum.splits)
      from findParentForScopes_frame [OF f] obtain m u where c1: "c1 = c\<lparr>path_mark := m, UUID := u\<rparr>"
        by auto
      let ?c2 = "c1\<lparr>inactive := (inactive c1)(changesOptions bv := True)\<rparr>"
      from rb c1 bv(1) have "createBubbledVariableDeclaration ?c2 p [] [] False (Some (n, bv)) = Inr (g, c')"
        by (simp add: rebaseBubbledVariableDeclaration_def)
      from create_rebase [OF this] c1 obtain e where
        "g = bname bv"
        "bubbledVariables c' = (bubbledVariables c)(n \<mapsto> bv\<lparr>bscope := p, changesOptions := next_object c\<rparr>)"
        "inactive c' = ((inactive c)(changesOptions bv := True))(next_object c := False)"
        "next_object c' = next_object c + 1"
        "alter c' = alter c @ [e]" "eoptions e = Some (next_object c)"
        by auto
      with bv show ?thesis
        by (intro disjI2 disjI1 exI [of _ bv] exI [of _ "bv\<lparr>bscope := p, changesOptions := next_object c\<rparr>"]
            exI [of _ e]) simp
    qed
  qed
qed


lemma table_ok_step:
  assumes ok: "table_ok c"
    and r: "bubbledVariableDeclaration c scope n v f = Inr (g, c')"
  shows "table_ok c'"
proof -
  from ok have lt: "\<And>m bv. bubbledVariables c m = Some bv \<Longrightarrow> changesOptions bv < next_object c"
    and inj: "\<And>m m' bv bv'. bubbledVariables c m = Some bv \<Longrightarrow> bubbledVariables c m' = Some bv'
                 \<Longrightarrow> changesOptions bv = changesOptions bv' \<Longrightarrow> m = m'"
    unfolding table_ok_def by blast+
  have upd: "table_ok c'"
    if t: "bubbledVariables c' = (bubbledVariables c)(n \<mapsto> bv')"
      and a: "changesOptions bv' = next_object c" and no: "next_object c' = next_object c + 1"
    for bv' :: bubbledVariable
    unfolding table_ok_def
  proof (intro conjI allI impI)
    fix m bv assume "bubbledVariables c' m = Some bv"
    with t a no lt [of m bv] show "changesOptions bv < next_object c'"
      by (cases "m = n") auto
  next
    fix m m' bv1 bv2
    assume h: "bubbledVariables c' m = Some bv1 \<and> bubbledVariables c' m' = Some bv2
                \<and> changesOptions bv1 = changesOptions bv2"
    show "m = m'"
    proof (cases "m = n")
      case True
      with h t a have 1: "changesOptions bv2 = next_object c" by simp
      show ?thesis
      proof (rule ccontr)
        assume "m \<noteq> m'"
        with True h t have "bubbledVariables c m' = Some bv2" by simp
        from lt [OF this] 1 show False by simp
      qed
    next
      case False
      with h t have b1: "bubbledVariables c m = Some bv1" by simp
      show ?thesis
      proof (cases "m' = n")
        case True
        with h t a have "changesOptions bv1 = next_object c" by simp
        with lt [OF b1] show ?thesis by simp
      next
        case False
        with h t have "bubbledVariables c m' = Some bv2" by simp
        from inj [OF b1 this] h show ?thesis by simp
      qed
    qed
  qed
  from request_effect [OF r] show ?thesis
  proof (elim disjE exE conjE)
    assume "c' = c" with ok show ?thesis by simp
  next
    fix bv bv' :: bubbledVariable and e
    assume "bubbledVariables c' = (bubbledVariables c)(n \<mapsto> bv')"
      "changesOptions bv' = next_object c" "next_object c' = next_object c + 1"
    then show ?thesis by (rule upd)
  next
    fix bv' :: bubbledVariable and e
    assume "bubbledVariables c' = (bubbledVariables c)(n \<mapsto> bv')"
      "changesOptions bv' = next_object c" "next_object c' = next_object c + 1"
    then show ?thesis by (rule upd)
  qed
qed


lemma pair_installed_other:
  assumes p: "pair_installed name init mine g c"
    and ok: "table_ok c"
    and ne: "n \<noteq> name"
    and r: "bubbledVariableDeclaration c scope n v f = Inr (g', c')"
  shows "pair_installed name init mine g c'"
proof -
  from p obtain bv :: bubbledVariable where bv: "bubbledVariables c name = Some bv" "bvalue bv = init"
    "bname bv = g" "\<not> inactive c (changesOptions bv)"
    and mine: "\<forall>i \<in> set mine. i < length (alter c)
              \<and> (\<exists>a. eoptions (alter c ! i) = Some a \<and> a < next_object c
                     \<and> (a \<noteq> changesOptions bv \<longrightarrow> inactive c a))"
    and cnt: "length (filter (\<lambda>i. eoptions (alter c ! i) = Some (changesOptions bv)) mine) = 1"
    unfolding pair_installed_def by blast
  from ok bv(1) have lt: "changesOptions bv < next_object c" unfolding table_ok_def by blast
  have keep: "pair_installed name init mine g c'"
    if t: "bubbledVariables c' name = Some bv"
      and ia: "\<And>a. a < next_object c \<Longrightarrow> a \<noteq> changesOptions bv \<Longrightarrow> inactive c a \<Longrightarrow> inactive c' a"
      and ib: "\<not> inactive c' (changesOptions bv)"
      and no: "next_object c \<le> next_object c'"
      and al: "\<exists>es. alter c' = alter c @ es"
  proof -
    from al obtain es where es: "alter c' = alter c @ es" ..
    have nth: "alter c' ! i = alter c ! i" if "i \<in> set mine" for i
      using that mine es by (simp add: nth_append)
    have m': "\<forall>i \<in> set mine. i < length (alter c')
              \<and> (\<exists>a. eoptions (alter c' ! i) = Some a \<and> a < next_object c'
                     \<and> (a \<noteq> changesOptions bv \<longrightarrow> inactive c' a))"
    proof
      fix i assume i: "i \<in> set mine"
      with mine obtain a where a: "i < length (alter c)" "eoptions (alter c ! i) = Some a"
        "a < next_object c" "a \<noteq> changesOptions bv \<longrightarrow> inactive c a" by blast
      from a ia [of a] nth [OF i] es no
      show "i < length (alter c')
              \<and> (\<exists>a. eoptions (alter c' ! i) = Some a \<and> a < next_object c'
                     \<and> (a \<noteq> changesOptions bv \<longrightarrow> inactive c' a))"
        by auto
    qed
    have "filter (\<lambda>i. eoptions (alter c' ! i) = Some (changesOptions bv)) mine
        = filter (\<lambda>i. eoptions (alter c ! i) = Some (changesOptions bv)) mine"
      by (rule filter_cong [OF refl]) (simp add: nth)
    with cnt have "length (filter (\<lambda>i. eoptions (alter c' ! i) = Some (changesOptions bv)) mine) = 1"
      by simp
    with t bv(2,3) ib m' show ?thesis unfolding pair_installed_def by blast
  qed
  from request_effect [OF r] show ?thesis
  proof (elim disjE exE conjE)
    assume "c' = c" with p show ?thesis by simp
  next
    fix bo bv' :: bubbledVariable and e
    assume bo: "bubbledVariables c n = Some bo"
      and t: "bubbledVariables c' = (bubbledVariables c)(n \<mapsto> bv')"
      and ia: "inactive c' = ((inactive c)(changesOptions bo := True))(next_object c := False)"
      and no: "next_object c' = next_object c + 1"
      and al: "alter c' = alter c @ [e]"
    from ok bo bv(1) ne have d: "changesOptions bo \<noteq> changesOptions bv"
      unfolding table_ok_def by blast
    show ?thesis
    proof (rule keep)
      show "bubbledVariables c' name = Some bv" using t ne bv(1) by simp
      show "\<not> inactive c' (changesOptions bv)" using ia d lt bv(4) by simp
      show "next_object c \<le> next_object c'" using no by simp
      show "\<exists>es. alter c' = alter c @ es" using al by blast
      show "inactive c' a" if "a < next_object c" "a \<noteq> changesOptions bv" "inactive c a" for a
        using that ia by simp
    qed
  next
    fix bv' :: bubbledVariable and e
    assume t: "bubbledVariables c' = (bubbledVariables c)(n \<mapsto> bv')"
      and ia: "inactive c' = (inactive c)(next_object c := False)"
      and no: "next_object c' = next_object c + 1"
      and al: "alter c' = alter c @ [e]"
    show ?thesis
    proof (rule keep)
      show "bubbledVariables c' name = Some bv" using t ne bv(1) by simp
      show "\<not> inactive c' (changesOptions bv)" using ia lt bv(4) by simp
      show "next_object c \<le> next_object c'" using no by simp
      show "\<exists>es. alter c' = alter c @ es" using al by blast
      show "inactive c' a" if "a < next_object c" "a \<noteq> changesOptions bv" "inactive c a" for a
        using that ia by simp
    qed
  qed
qed

lemma pair_installed_new_edit:
  assumes bv: "bubbledVariables c' name = Some bv'" "bvalue bv' = init" "bname bv' = g"
      "changesOptions bv' = next_object c"
    and ia: "\<not> inactive c' (next_object c)"
      "\<And>a. a < next_object c \<Longrightarrow> (\<exists>i \<in> set mine. eoptions (alter c ! i) = Some a) \<Longrightarrow> inactive c' a"
    and no: "next_object c' = next_object c + 1"
    and al: "alter c' = alter c @ [e]" "eoptions e = Some (next_object c)"
    and mine: "\<forall>i \<in> set mine. i < length (alter c)
              \<and> (\<exists>a. eoptions (alter c ! i) = Some a \<and> a < next_object c)"
  shows "pair_installed name init (mine @ [length (alter c) ..< length (alter c')]) g c'"
proof -
  have up: "[length (alter c) ..< length (alter c')] = [length (alter c)]" using al(1) by simp
  have nth: "alter c' ! i = alter c ! i" if "i \<in> set mine" for i
    using that mine al(1) by (simp add: nth_append)
  have new: "alter c' ! length (alter c) = e" using al(1) by simp
  have old0: "filter (\<lambda>i. eoptions (alter c' ! i) = Some (next_object c)) mine = []"
    unfolding filter_empty_conv
  proof
    fix i assume i: "i \<in> set mine"
    with mine obtain a where "eoptions (alter c ! i) = Some a" "a < next_object c" by blast
    with nth [OF i] show "\<not> eoptions (alter c' ! i) = Some (next_object c)" by simp
  qed
  have all: "\<forall>i \<in> set (mine @ [length (alter c)]). i < length (alter c')
              \<and> (\<exists>a. eoptions (alter c' ! i) = Some a \<and> a < next_object c'
                     \<and> (a \<noteq> changesOptions bv' \<longrightarrow> inactive c' a))"
  proof
    fix i assume "i \<in> set (mine @ [length (alter c)])"
    then have "i \<in> set mine \<or> i = length (alter c)" by auto
    then show "i < length (alter c')
              \<and> (\<exists>a. eoptions (alter c' ! i) = Some a \<and> a < next_object c'
                     \<and> (a \<noteq> changesOptions bv' \<longrightarrow> inactive c' a))"
    proof
      assume i: "i \<in> set mine"
      with mine obtain a where a: "i < length (alter c)" "eoptions (alter c ! i) = Some a"
        "a < next_object c" by blast
      with i ia(2) [of a] have "inactive c' a" by blast
      with a nth [OF i] al(1) no show ?thesis by simp
    next
      assume "i = length (alter c)"
      with new al no bv(4) show ?thesis by simp
    qed
  qed
  have "length (filter (\<lambda>i. eoptions (alter c' ! i) = Some (changesOptions bv'))
          (mine @ [length (alter c)])) = 1"
    using old0 new al(2) bv(4) by simp
  with bv ia(1) all show ?thesis unfolding pair_installed_def up by (intro exI [of _ bv']) simp
qed

lemma pair_installed_same:
  assumes p: "pair_installed name init mine g c"
    and ok: "table_ok c"
    and r: "bubbledVariableDeclaration c scope name init f = Inr (g', c')"
  shows "g' = g \<and> pair_installed name init (mine @ [length (alter c) ..< length (alter c')]) g c'"
proof -
  from p obtain bv :: bubbledVariable where bv: "bubbledVariables c name = Some bv" "bvalue bv = init"
    "bname bv = g" "\<not> inactive c (changesOptions bv)"
    and mine: "\<forall>i \<in> set mine. i < length (alter c)
              \<and> (\<exists>a. eoptions (alter c ! i) = Some a \<and> a < next_object c
                     \<and> (a \<noteq> changesOptions bv \<longrightarrow> inactive c a))"
    unfolding pair_installed_def by blast
  from bv(1,2) have ib: "isBubbledVariableDeclaration c name init = Some bv"
    by (simp add: isBubbledVariableDeclaration_def)
  from request_effect [OF r] show ?thesis
  proof (elim disjE exE conjE)
    fix b :: bubbledVariable
    assume "c' = c" "bubbledVariables c name = Some b" "bname b = g'"
    with bv p show ?thesis by simp
  next
    fix b bv' :: bubbledVariable and e
    assume b: "bubbledVariables c name = Some b" "bname b = g'"
      and n: "bname bv' = g'" "bvalue bv' = init" "changesOptions bv' = next_object c"
      and t: "bubbledVariables c' = (bubbledVariables c)(name \<mapsto> bv')"
      and ia: "inactive c' = ((inactive c)(changesOptions b := True))(next_object c := False)"
      and no: "next_object c' = next_object c + 1"
      and al: "alter c' = alter c @ [e]" "eoptions e = Some (next_object c)"
    from b bv have bb: "b = bv" "g' = g" by simp_all
    have "pair_installed name init (mine @ [length (alter c) ..< length (alter c')]) g c'"
    proof (rule pair_installed_new_edit [OF _ _ _ n(3) _ _ no al])
      show "bubbledVariables c' name = Some bv'" using t by simp
      show "bvalue bv' = init" by (rule n(2))
      show "bname bv' = g" using n(1) bb by simp
      show "\<not> inactive c' (next_object c)" using ia by simp
      show "inactive c' a" if "a < next_object c" "\<exists>i \<in> set mine. eoptions (alter c ! i) = Some a" for a
      proof -
        from that(2) mine have "a \<noteq> changesOptions bv \<longrightarrow> inactive c a" by fastforce
        with that(1) ia bb show ?thesis by auto
      qed
      show "\<forall>i \<in> set mine. i < length (alter c)
              \<and> (\<exists>a. eoptions (alter c ! i) = Some a \<and> a < next_object c)"
        using mine by blast
    qed
    with bb show ?thesis by simp
  next
    assume "isBubbledVariableDeclaration c name init = None"
    with ib show ?thesis by simp
  qed
qed

lemma pair_installed_first:
  assumes fresh: "isBubbledVariableDeclaration c name init = None"
    and r: "bubbledVariableDeclaration c scope name init f = Inr (g, c')"
  shows "pair_installed name init [length (alter c) ..< length (alter c')] g c'"
proof -
  have no_entry: False if "bubbledVariables c name = Some b" "bvalue b = init" for b
    using that fresh by (simp add: isBubbledVariableDeclaration_def)
  from request_effect [OF r] show ?thesis
  proof (elim disjE exE conjE)
    fix b :: bubbledVariable
    assume "bubbledVariables c name = Some b" "bvalue b = init"
    then show ?thesis using no_entry by blast
  next
    fix b bv' :: bubbledVariable and e
    assume "bubbledVariables c name = Some b" "bvalue b = init"
    then show ?thesis using no_entry by blast
  next
    fix bv' :: bubbledVariable and e
    assume n: "bname bv' = g" "bvalue bv' = init" "changesOptions bv' = next_object c"
      and t: "bubbledVariables c' = (bubbledVariables c)(name \<mapsto> bv')"
      and ia: "inactive c' = (inactive c)(next_object c := False)"
      and no: "next_object c' = next_object c + 1"
      and al: "alter c' = alter c @ [e]" "eoptions e = Some (next_object c)"
    have "pair_installed name init ([] @ [length (alter c) ..< length (alter c')]) g c'"
    proof (rule pair_installed_new_edit [OF _ n(2) n(1) n(3) _ _ no al])
      show "bubbledVariables c' name = Some bv'" using t by simp
      show "\<not> inactive c' (next_object c)" using ia by simp
    qed simp_all
    then show ?thesis by simp
  qed
qed

lemma fresh_other:
  assumes fresh: "isBubbledVariableDeclaration c name init = None"
    and ne: "n \<noteq> name"
    and r: "bubbledVariableDeclaration c scope n v f = Inr (g, c')"
  shows "isBubbledVariableDeclaration c' name init = None"
proof -
  from request_effect [OF r] ne have "bubbledVariables c' name = bubbledVariables c name"
    by (elim disjE exE conjE) simp_all
  with fresh show ?thesis by (simp add: isBubbledVariableDeclaration_def)
qed


lemma answers_for_Cons:
  "answers_for name (r # rs) (a # as)
     = (if rname r = name then [a] else []) @ answers_for name rs as"
  by (simp add: answers_for_def)

lemma answers_for_Nil: "answers_for name [] as = []"
  by (simp add: answers_for_def)

lemma serve_installed:
  "table_ok c \<Longrightarrow> pair_installed name init mine g c
     \<Longrightarrow> \<forall>r \<in> set rs. rname r = name \<longrightarrow> rvalue r = init
     \<Longrightarrow> serve c rs = Inr (as, c')
     \<Longrightarrow> pair_installed name init (mine @ concat (map snd (answers_for name rs as))) g c'
         \<and> set (map fst (answers_for name rs as)) \<subseteq> {g}"
proof (induction rs arbitrary: c mine as)
  case Nil
  then show ?case by (simp add: answers_for_Nil)
next
  case (Cons r rs)
  from Cons.prems(4) obtain g1 c1 as1 where
    1: "bubbledVariableDeclaration c (rscope r) (rname r) (rvalue r) (risFunction r) = Inr (g1, c1)"
    and 2: "serve c1 rs = Inr (as1, c')"
    and 3: "as = (g1, [length (alter c) ..< length (alter c1)]) # as1"
    by (auto split: sum.splits)
  have ok1: "table_ok c1" by (rule table_ok_step [OF Cons.prems(1) 1])
  have d: "\<forall>r \<in> set rs. rname r = name \<longrightarrow> rvalue r = init" using Cons.prems(3) by simp
  show ?case
  proof (cases "rname r = name")
    case True
    with Cons.prems(3) have v: "rvalue r = init" by simp
    from pair_installed_same [OF Cons.prems(2,1)] 1 True v
    have g: "g1 = g"
      and p1: "pair_installed name init (mine @ [length (alter c) ..< length (alter c1)]) g c1"
      by auto
    from Cons.IH [OF ok1 p1 d 2] True 3 g show ?thesis
      by (simp add: answers_for_Cons)
  next
    case False
    from pair_installed_other [OF Cons.prems(2,1) _ 1] False
    have p1: "pair_installed name init mine g c1" by auto
    from Cons.IH [OF ok1 p1 d 2] False 3 show ?thesis
      by (simp add: answers_for_Cons)
  qed
qed

lemma serve_fresh:
  "table_ok c \<Longrightarrow> isBubbledVariableDeclaration c name init = None
     \<Longrightarrow> \<forall>r \<in> set rs. rname r = name \<longrightarrow> rvalue r = init
     \<Longrightarrow> serve c rs = Inr (as, c')
     \<Longrightarrow> answers_for name rs as = []
         \<or> (\<exists>g. pair_installed name init (concat (map snd (answers_for name rs as))) g c'
                \<and> set (map fst (answers_for name rs as)) = {g})"
proof (induction rs arbitrary: c as)
  case Nil
  then show ?case by (simp add: answers_for_Nil)
next
  case (Cons r rs)
  from Cons.prems(4) obtain g1 c1 as1 where
    1: "bubbledVariableDeclaration c (rscope r) (rname r) (rvalue r) (risFunction r) = Inr (g1, c1)"
    and 2: "serve c1 rs = Inr (as1, c')"
    and 3: "as = (g1, [length (alter c) ..< length (alter c1)]) # as1"
    by (auto split: sum.splits)
  have ok1: "table_ok c1" by (rule table_ok_step [OF Cons.prems(1) 1])
  have d: "\<forall>r \<in> set rs. rname r = name \<longrightarrow> rvalue r = init" using Cons.prems(3) by simp
  show ?case
  proof (cases "rname r = name")
    case True
    with Cons.prems(3) have v: "rvalue r = init" by simp
    from pair_installed_first [OF Cons.prems(2)] 1 True v
    have p1: "pair_installed name init [length (alter c) ..< length (alter c1)] g1 c1" by auto
    from serve_installed [OF ok1 p1 d 2] True 3 show ?thesis
      by (intro disjI2 exI [of _ g1]) (auto simp: answers_for_Cons)
  next
    case False
    from fresh_other [OF Cons.prems(2) _ 1] False
    have f1: "isBubbledVariableDeclaration c1 name init = None" by auto
    from Cons.IH [OF ok1 f1 d 2] False 3 show ?thesis
      by (simp add: answers_for_Cons)
  qed
qed

lemma pair_installed_active:
  assumes "pair_installed name init mine g c"
  shows "length (filter (\<lambda>i. active c (alter c ! i)) mine) = 1"
proof -
  from assms obtain bv :: bubbledVariable where bv: "\<not> inactive c (changesOptions bv)"
    "\<forall>i \<in> set mine. i < length (alter c)
              \<and> (\<exists>a. eoptions (alter c ! i) = Some a \<and> a < next_object c
                     \<and> (a \<noteq> changesOptions bv \<longrightarrow> inactive c a))"
    "length (filter (\<lambda>i. eoptions (alter c ! i) = Some (changesOptions bv)) mine) = 1"
    unfolding pair_installed_def by blast
  have "filter (\<lambda>i. active c (alter c ! i)) mine
      = filter (\<lambda>i. eoptions (alter c ! i) = Some (changesOptions bv)) mine"
  proof (rule filter_cong [OF refl])
    fix i assume "i \<in> set mine"
    with bv(2) obtain a where "eoptions (alter c ! i) = Some a" "a \<noteq> changesOptions bv \<longrightarrow> inactive c a"
      by blast
    with bv(1) show "active c (alter c ! i) = (eoptions (alter c ! i) = Some (changesOptions bv))"
      by (auto simp: active_def)
  qed
  with bv(3) show ?thesis by simp
qed

lemma pair_installed_tracked:
  "pair_installed name init mine g c \<Longrightarrow> pair_tracked name init mine g c"
  unfolding pair_installed_def pair_tracked_def by force

lemma pair_tracked_other:
  assumes p: "pair_tracked name init mine g c"
    and ne: "n \<noteq> name"
    and r: "bubbledVariableDeclaration c scope n v f = Inr (g', c')"
  shows "pair_tracked name init mine g c'"
proof -
  from p obtain bv :: bubbledVariable where bv: "bubbledVariables c name = Some bv" "bvalue bv = init"
    "bname bv = g"
    and mine: "\<forall>i \<in> set mine. i < length (alter c)
              \<and> (\<exists>a. eoptions (alter c ! i) = Some a \<and> a < next_object c
                     \<and> (a \<noteq> changesOptions bv \<longrightarrow> inactive c a))"
    and cnt: "length (filter (\<lambda>i. eoptions (alter c ! i) = Some (changesOptions bv)) mine) \<le> 1"
    unfolding pair_tracked_def by blast
  have keep: "pair_tracked name init mine g c'"
    if t: "bubbledVariables c' name = Some bv"
      and ia: "\<And>a. a < next_object c \<Longrightarrow> inactive c a \<Longrightarrow> inactive c' a"
      and no: "next_object c \<le> next_object c'"
      and al: "\<exists>es. alter c' = alter c @ es"
  proof -
    from al obtain es where es: "alter c' = alter c @ es" ..
    have nth: "alter c' ! i = alter c ! i" if "i \<in> set mine" for i
      using that mine es by (simp add: nth_append)
    have m': "\<forall>i \<in> set mine. i < length (alter c')
              \<and> (\<exists>a. eoptions (alter c' ! i) = Some a \<and> a < next_object c'
                     \<and> (a \<noteq> changesOptions bv \<longrightarrow> inactive c' a))"
    proof
      fix i assume i: "i \<in> set mine"
      with mine obtain a where a: "i < length (alter c)" "eoptions (alter c ! i) = Some a"
        "a < next_object c" "a \<noteq> changesOptions bv \<longrightarrow> inactive c a" by blast
      from a ia [of a] nth [OF i] es no
      show "i < length (alter c')
              \<and> (\<exists>a. eoptions (alter c' ! i) = Some a \<and> a < next_object c'
                     \<and> (a \<noteq> changesOptions bv \<longrightarrow> inactive c' a))"
        by auto
    qed
    have "filter (\<lambda>i. eoptions (alter c' ! i) = Some (changesOptions bv)) mine
        = filter (\<lambda>i. eoptions (alter c ! i) = Some (changesOptions bv)) mine"
      by (rule filter_cong [OF refl]) (simp add: nth)
    with cnt have "length (filter (\<lambda>i. eoptions (alter c' ! i) = Some (changesOptions bv)) mine) \<le> 1"
      by simp
    with t bv(2,3) m' show ?thesis unfolding pair_tracked_def by blast
  qed
  from request_effect [OF r] show ?thesis
  proof (elim disjE exE conjE)
    assume "c' = c" with p show ?thesis by simp
  next
    fix bo bv' :: bubbledVariable and e
    assume t: "bubbledVariables c' = (bubbledVariables c)(n \<mapsto> bv')"
      and ia: "inactive c' = ((inactive c)(changesOptions bo := True))(next_object c := False)"
      and no: "next_object c' = next_object c + 1"
      and al: "alter c' = alter c @ [e]"
    show ?thesis
    proof (rule keep)
      show "bubbledVariables c' name = Some bv" using t ne bv(1) by simp
      show "next_object c \<le> next_object c'" using no by simp
      show "\<exists>es. alter c' = alter c @ es" using al by blast
      show "inactive c' a" if "a < next_object c" "inactive c a" for a
        using that ia by simp
    qed
  next
    fix bv' :: bubbledVariable and e
    assume t: "bubbledVariables c' = (bubbledVariables c)(n \<mapsto> bv')"
      and ia: "inactive c' = (inactive c)(next_object c := False)"
      and no: "next_object c' = next_object c + 1"
      and al: "alter c' = alter c @ [e]"
    show ?thesis
    proof (rule keep)
      show "bubbledVariables c' name = Some bv" using t ne bv(1) by simp
      show "next_object c \<le> next_object c'" using no by simp
      show "\<exists>es. alter c' = alter c @ es" using al by blast
      show "inactive c' a" if "a < next_object c" "inactive c a" for a
        using that ia by simp
    qed
  qed
qed

lemma pair_tracked_same:
  assumes p: "pair_tracked name init mine g c"
    and r: "bubbledVariableDeclaration c scope name init f = Inr (g', c')"
  shows "g' = g \<and> pair_tracked name init (mine @ [length (alter c) ..< length (alter c')]) g c'"
proof -
  from p obtain bv :: bubbledVariable where bv: "bubbledVariables c name = Some bv" "bvalue bv = init"
    "bname bv = g"
    and mine: "\<forall>i \<in> set mine. i < length (alter c)
              \<and> (\<exists>a. eoptions (alter c ! i) = Some a \<and> a < next_object c
                     \<and> (a \<noteq> changesOptions bv \<longrightarrow> inactive c a))"
    unfolding pair_tracked_def by blast
  from bv(1,2) have ib: "isBubbledVariableDeclaration c name init = Some bv"
    by (simp add: isBubbledVariableDeclaration_def)
  from request_effect [OF r] show ?thesis
  proof (elim disjE exE conjE)
    fix b :: bubbledVariable
    assume "c' = c" "bubbledVariables c name = Some b" "bname b = g'"
    with bv p show ?thesis by simp
  next
    fix b bv' :: bubbledVariable and e
    assume b: "bubbledVariables c name = Some b" "bname b = g'"
      and n: "bname bv' = g'" "bvalue bv' = init" "changesOptions bv' = next_object c"
      and t: "bubbledVariables c' = (bubbledVariables c)(name \<mapsto> bv')"
      and ia: "inactive c' = ((inactive c)(changesOptions b := True))(next_object c := False)"
      and no: "next_object c' = next_object c + 1"
      and al: "alter c' = alter c @ [e]" "eoptions e = Some (next_object c)"
    from b bv have bb: "b = bv" "g' = g" by simp_all
    have "pair_installed name init (mine @ [length (alter c) ..< length (alter c')]) g c'"
    proof (rule pair_installed_new_edit [OF _ _ _ n(3) _ _ no al])
      show "bubbledVariables c' name = Some bv'" using t by simp
      show "bvalue bv' = init" by (rule n(2))
      show "bname bv' = g" using n(1) bb by simp
      show "\<not> inactive c' (next_object c)" using ia by simp
      show "inactive c' a" if "a < next_object c" "\<exists>i \<in> set mine. eoptions (alter c ! i) = Some a" for a
      proof -
        from that(2) mine have "a \<noteq> changesOptions bv \<longrightarrow> inactive c a" by fastforce
        with that(1) ia bb show ?thesis by auto
      qed
      show "\<forall>i \<in> set mine. i < length (alter c)
              \<and> (\<exists>a. eoptions (alter c ! i) = Some a \<and> a < next_object c)"
        using mine by blast
    qed
    with bb show ?thesis by (simp add: pair_installed_tracked)
  next
    assume "isBubbledVariableDeclaration c name init = None"
    with ib show ?thesis by simp
  qed
qed

lemma serve_tracked:
  "pair_tracked name init mine g c
     \<Longrightarrow> \<forall>r \<in> set rs. rname r = name \<longrightarrow> rvalue r = init
     \<Longrightarrow> serve c rs = Inr (as, c')
     \<Longrightarrow> pair_tracked name init (mine @ concat (map snd (answers_for name rs as))) g c'
         \<and> set (map fst (answers_for name rs as)) \<subseteq> {g}"
proof (induction rs arbitrary: c mine as)
  case Nil
  then show ?case by (simp add: answers_for_Nil)
next
  case (Cons r rs)
  from Cons.prems(3) obtain g1 c1 as1 where
    1: "bubbledVariableDeclaration c (rscope r) (rname r) (rvalue r) (risFunction r) = Inr (g1, c1)"
    and 2: "serve c1 rs = Inr (as1, c')"
    and 3: "as = (g1, [length (alter c) ..< length (alter c1)]) # as1"
    by (auto split: sum.splits)
  have d: "\<forall>r \<in> set rs. rname r = name \<longrightarrow> rvalue r = init" using Cons.prems(2) by simp
  show ?case
  proof (cases "rname r = name")
    case True
    with Cons.prems(2) have v: "rvalue r = init" by simp
    from pair_tracked_same [OF Cons.prems(1)] 1 True v
    have g: "g1 = g"
      and p1: "pair_tracked name init (mine @ [length (alter c) ..< length (alter c1)]) g c1"
      by auto
    from Cons.IH [OF p1 d 2] True 3 g show ?thesis
      by (simp add: answers_for_Cons)
  next
    case False
    from pair_tracked_other [OF Cons.prems(1) _ 1] False
    have p1: "pair_tracked name init mine g c1" by auto
    from Cons.IH [OF p1 d 2] False 3 show ?thesis
      by (simp add: answers_for_Cons)
  qed
qed

lemma serve_untracked:
  "isBubbledVariableDeclaration c name init = None
     \<Longrightarrow> \<forall>r \<in> set rs. rname r = name \<longrightarrow> rvalue r = init
     \<Longrightarrow> serve c rs = Inr (as, c')
     \<Longrightarrow> answers_for name rs as = []
         \<or> (\<exists>g. pair_tracked name init (concat (map snd (answers_for name rs as))) g c'
                \<and> set (map fst (answers_for name rs as)) \<subseteq> {g})"
proof (induction rs arbitrary: c as)
  case Nil
  then show ?case by (simp add: answers_for_Nil)
next
  case (Cons r rs)
  from Cons.prems(3) obtain g1 c1 as1 where
    1: "bubbledVariableDeclaration c (rscope r) (rname r) (rvalue r) (risFunction r) = Inr (g1, c1)"
    and 2: "serve c1 rs = Inr (as1, c')"
    and 3: "as = (g1, [length (alter c) ..< length (alter c1)]) # as1"
    by (auto split: sum.splits)
  have d: "\<forall>r \<in> set rs. rname r = name \<longrightarrow> rvalue r = init" using Cons.prems(2) by simp
  show ?case
  proof (cases "rname r = name")
    case True
    with Cons.prems(2) have v: "rvalue r = init" by simp
    from pair_installed_first [OF Cons.prems(1)] 1 True v
    have p1: "pair_tracked name init [length (alter c) ..< length (alter c1)] g1 c1"
      by (auto intro: pair_installed_tracked)
    from serve_tracked [OF p1 d 2] True 3 show ?thesis
      by (intro disjI2 exI [of _ g1]) (auto simp: answers_for_Cons)
  next
    case False
    from fresh_other [OF Cons.prems(1) _ 1] False
    have f1: "isBubbledVariableDeclaration c1 name init = None" by auto
    from Cons.IH [OF f1 d 2] False 3 show ?thesis
      by (simp add: answers_for_Cons)
  qed
qed

lemma pair_tracked_active:
  assumes "pair_tracked name init mine g c"
  shows "length (filter (\<lambda>i. active c (alter c ! i)) mine) \<le> 1"
proof -
  from assms obtain bv :: bubbledVariable where bv:
    "\<forall>i \<in> set mine. i < length (alter c)
              \<and> (\<exists>a. eoptions (alter c ! i) = Some a \<and> a < next_object c
                     \<and> (a \<noteq> changesOptions bv \<longrightarrow> inactive c a))"
    "length (filter (\<lambda>i. eoptions (alter c ! i) = Some (changesOptions bv)) mine) \<le> 1"
    unfolding pair_tracked_def by blast
  have "filter (\<lambda>i. active c (alter c ! i)) mine
      = filter (\<lambda>i. active c (alter c ! i))
          (filter (\<lambda>i. eoptions (alter c ! i) = Some (changesOptions bv)) mine)"
    unfolding filter_filter
  proof (rule filter_cong [OF refl])
    fix i assume "i \<in> set mine"
    with bv(1) obtain a where "eoptions (alter c ! i) = Some a" "a \<noteq> changesOptions bv \<longrightarrow> inactive c a"
      by blast
    then show "active c (alter c ! i)
        = (eoptions (alter c ! i) = Some (changesOptions bv) \<and> active c (alter c ! i))"
      by (auto simp: active_def)
  qed
  then have "length (filter (\<lambda>i. active c (alter c ! i)) mine)
      \<le> length (filter (\<lambda>i. eoptions (alter c ! i) = Some (changesOptions bv)) mine)"
    by (metis length_filter_le)
  with bv(2) show ?thesis by simp
qed

text \<open>
  Claim C3, as amended. Take any run of requests that completes, and a logical name whose
  requests in the run all carry one initialiser; requests for other logical names may
  come in between. Then all the requests for the name return one identifier, and of the
  installation edits that they have handed to the edit sink at most one is active at the
  end of the run (every prefix of a run is a run, so at any time): a rebase flags the
  options object of the previous edit inactive and inserts the new edit under a new
  options object. If moreover the run starts from a well-formed table without a helper
  for the pair and has a request for it, exactly one of these edits is active.
\<close>

theorem bubbledVariableDeclaration_one_identifier_one_active_edit:
  assumes "\<forall>r \<in> set rs. rname r = variableName \<longrightarrow> rvalue r = variableInitValue"
    and "serve c rs = Inr (as, c')"
  shows "(\<exists>g. set (map fst (answers_for variableName rs as)) \<subseteq> {g})
       \<and> length (filter (\<lambda>i. active c' (alter c' ! i))
                   (concat (map snd (answers_for variableName rs as)))) \<le> 1
       \<and> (table_ok c \<and> isBubbledVariableDeclaration c variableName variableInitValue = None
            \<and> answers_for variableName rs as \<noteq> [] \<longrightarrow>
          length (filter (\<lambda>i. active c' (alter c' ! i))
                   (concat (map snd (answers_for variableName rs as)))) = 1)"
proof -
  let ?ans = "answers_for variableName rs as"
  have "\<exists>g. (?ans = [] \<or> pair_tracked variableName variableInitValue (concat (map snd ?ans)) g c')
            \<and> set (map fst ?ans) \<subseteq> {g}"
  proof (cases "isBubbledVariableDeclaration c variableName variableInitValue")
    case None
    from serve_untracked [OF None assms] show ?thesis by auto
  next
    case (Some bv)
    then have "pair_tracked variableName variableInitValue [] (bname bv) c"
      by (auto simp: pair_tracked_def isBubbledVariableDeclaration_def split: option.splits if_splits)
    from serve_tracked [OF this assms] show ?thesis by auto
  qed
  then obtain g where g: "?ans = [] \<or> pair_tracked variableName variableInitValue (concat (map snd ?ans)) g c'"
    "set (map fst ?ans) \<subseteq> {g}" by blast
  from g(1) have le: "length (filter (\<lambda>i. active c' (alter c' ! i)) (concat (map snd ?ans))) \<le> 1"
    using pair_tracked_active by auto
  have "length (filter (\<lambda>i. active c' (alter c' ! i)) (concat (map snd ?ans))) = 1"
    if "table_ok c" "isBubbledVariableDeclaration c variableName variableInitValue = None" "?ans \<noteq> []"
  proof -
    from serve_fresh [OF that(1,2) assms] that(3) obtain g' where
      "pair_installed variableName variableInitValue (concat (map snd ?ans)) g' c'" by blast
    then show ?thesis by (rule pair_installed_active)
  qed
  with g(2) le show ?thesis by blast
qed


lemma p5_requests_example:
  "served p5_core p5_requests
     = Inr ([(''DP$0'', [0]), (''MIXIN$0'', [1]), (''DP$0'', [2]), (''MIXIN$0'', [3]),
             (''DP$0'', []), (''MIXIN$0'', [])],
            [(14, ''var DP$0 = Object.defineProperty;'', False),
             (14, ''var MIXIN$0 = function(t,s){};'', False),
             (0, ''var DP$0 = Object.defineProperty;'', True),
             (0, ''var MIXIN$0 = function(t,s){};'', True)])"
  by code_simp

text \<open>
  The classes of \<open>b\<close>, of \<open>g\<close> and of \<open>a\<close> request \<open>DP\<close> and \<open>MIXIN\<close> in turn: the
  requests of \<open>b\<close> install the two helpers at the body of \<open>b\<close>, those of \<open>g\<close> rebase
  them to the program, those of \<open>a\<close> find them. The three requests for \<open>DP\<close> return
  \<open>DP$0\<close>, and of the two edits they inserted (positions 0 and 2 of the sink) the second
  is active.
\<close>

theorem bubbledVariableDeclaration_one_identifier_one_active_edit_witness:
  "map rvalue (filter (\<lambda>r. rname r = ''DP'') p5_requests)
     = [''Object.defineProperty'', ''Object.defineProperty'', ''Object.defineProperty'']
   \<and> (\<exists>as c'. serve p5_core p5_requests = Inr (as, c')
          \<and> answers_for ''DP'' p5_requests as = [(''DP$0'', [0]), (''DP$0'', [2]), (''DP$0'', [])]
          \<and> edits_view c'
              = [(14, ''var DP$0 = Object.defineProperty;'', False),
                 (14, ''var MIXIN$0 = function(t,s){};'', False),
                 (0, ''var DP$0 = Object.defineProperty;'', True),
                 (0, ''var MIXIN$0 = function(t,s){};'', True)]
          \<and> length (filter (\<lambda>i. active c' (alter c' ! i))
                      (concat (map snd (answers_for ''DP'' p5_requests as)))) = 1)"
proof -
  have d: "\<forall>r \<in> set p5_requests. rname r = ''DP'' \<longrightarrow> rvalue r = ''Object.defineProperty''"
    by (simp add: p5_requests_def rq_def)
  have v: "map rvalue (filter (\<lambda>r. rname r = ''DP'') p5_requests)
     = [''Object.defineProperty'', ''Object.defineProperty'', ''Object.defineProperty'']"
    by (simp add: p5_requests_def rq_def)
  from p5_requests_example obtain as c' where
    r: "serve p5_core p5_requests = Inr (as, c')"
    and as: "as = [(''DP$0'', [0]), (''MIXIN$0'', [1]), (''DP$0'', [2]), (''MIXIN$0'', [3]),
             (''DP$0'', []), (''MIXIN$0'', [])]"
    and e: "edits_view c'
              = [(14, ''var DP$0 = Object.defineProperty;'', False),
                 (14, ''var MIXIN$0 = function(t,s){};'', False),
                 (0, ''var DP$0 = Object.defineProperty;'', True),
                 (0, ''var MIXIN$0 = function(t,s){};'', True)]"
    by (cases "serve p5_core p5_requests") (auto simp: served_def)
  have a: "answers_for ''DP'' p5_requests as = [(''DP$0'', [0]), (''DP$0'', [2]), (''DP$0'', [])]"
    by (simp add: answers_for_def p5_requests_def rq_def as)
  have t: "table_ok p5_core"
    by (simp add: table_ok_def p5_core_def loaded_core_def)
  have f: "isBubbledVariableDeclaration p5_core ''DP'' ''Object.defineProperty'' = None"
    by (simp add: isBubbledVariableDeclaration_def p5_core_def loaded_core_def)
  from bubbledVariableDeclaration_one_identifier_one_active_edit [OF d r] t f a
  have l: "length (filter (\<lambda>i. active c' (alter c' ! i))
                      (concat (map snd (answers_for ''DP'' p5_requests as)))) = 1"
    by simp
  show ?thesis
  proof (intro conjI exI [of _ as] exI [of _ c'])
    show "map rvalue (filter (\<lambda>r. rname r = ''DP'') p5_requests)
     = [''Object.defineProperty'', ''Object.defineProperty'', ''Object.defineProperty'']"
      by (rule v)
  qed (rule r a e l)+
qed

text \<open>
  Without the condition on the initialisers the claim fails. The table is keyed by the
  logical name alone and \<open>__isBubbledVariableDeclaration\<close> compares the initialiser, so
  a request for the name with another initialiser replaces the entry by a new helper
  without flagging the edit of the old one, and the next request with the first
  initialiser does the same. Three requests from the class of \<open>b\<close>, the first and the
  third for the pair \<open>DP\<close>, \<open>Object.defineProperty\<close>: they return \<open>DP$0\<close> and \<open>DP$2\<close>,
  and both their installation edits are active at the end.
\<close>

theorem bubbledVariableDeclaration_other_initialiser_counterexample:
  "served p5_core
       [rq p5_b_body_scope ''DP'' ''Object.defineProperty'',
        rq p5_b_body_scope ''DP'' ''X'',
        rq p5_b_body_scope ''DP'' ''Object.defineProperty'']
     = Inr ([(''DP$0'', [0]), (''DP$1'', [1]), (''DP$2'', [2])],
            [(14, ''var DP$0 = Object.defineProperty;'', True),
             (14, ''var DP$1 = X;'', True),
             (14, ''var DP$2 = Object.defineProperty;'', True)])"
  by code_simp

text \<open>
  Claim C5, at the scopes of \<open>a\<close> and \<open>b\<close>. The helper is installed in \<open>b\<close> and the
  class in \<open>a\<close> requests it: \<open>bubbledVariableDeclaration\<close> calls
  \<open>findParentForScopes(scope of a, scope of b)\<close>. The walk from \<open>a\<close> steps to the block
  scope of the body of \<open>g\<close> and stays there (only a hoisting scope is replaced by its
  parent), marks \<open>g\<close>, and on the next round finds its own mark: the result is the scope
  of \<open>g\<close>, which is not among the scopes from \<open>b\<close> outward. With the arguments in the
  other order the walk from \<open>b\<close> runs off the ambient scope and the final assertion
  fails.
\<close>

theorem findParentForScopes_returns_uncommon_scope:
  "map_sum id fst (findParentForScopes p5_core [p5_a_scope, p5_b_scope]) = Inr p5_g_scope
   \<and> closestHoistScope p5_b_scope = Some p5_b_scope
   \<and> p5_g_scope \<notin> set (scope_chain p5_b_scope)
   \<and> p5_scope \<in> set (scope_chain p5_a_scope) \<inter> set (scope_chain p5_b_scope)
   \<and> map_sum id fst (findParentForScopes p5_core [p5_b_scope, p5_a_scope]) = Inl AssertionError"
  by code_simp

section \<open>Properties of class lowering\<close>

text \<open>
  The text of the wiring. Whenever \<open>createPrototypeString\<close> produces the prototype
  wiring of a class, the text ends with the call of the property-definition helper (the identifier that
  \<open>bubbledVariableDeclaration\<close> returns for \<open>DP\<close>, bound to \<open>Object.defineProperty\<close>) on
  the class and its slot \<open>"prototype"\<close>, with \<open>configurable\<close>, \<open>enumerable\<close> and
  \<open>writable\<close> all \<open>false\<close>; this holds with and without a superclass and with and without
  accessors.
\<close>

theorem createPrototypeString_ends_with_freeze:
  assumes "createPrototypeString c node className superName accessors = Inr (text, c')"
  shows "\<exists>prefix nscope DP.
           scope_of c (nid (ninfo node)) = Some nscope
         \<and> bubbledVariableDeclaration c nscope ''DP'' ''Object.defineProperty'' False = Inr (DP, c')
         \<and> text = prefix @ DP @ ''('' @ className
              @ '', \"prototype\", {\"configurable\": false, \"enumerable\": false, \"writable\": false});''"
proof -
  from assms obtain nscope where n: "scope_of c (nid (ninfo node)) = Some nscope"
    by (auto simp: createPrototypeString_def Let_def split: option.splits)
  with assms obtain DP where
    b: "bubbledVariableDeclaration c nscope ''DP'' ''Object.defineProperty'' False = Inr (DP, c')"
    by (auto simp: createPrototypeString_def Let_def split: sum.splits)
  let ?f = "freezePrototypeString DP className"
  from assms n b have "\<exists>prefix. text = prefix @ ?f"
    by (auto simp: createPrototypeString_def Let_def split: if_splits)
  then obtain prefix where "text = prefix @ ?f" ..
  with n b show ?thesis unfolding freezePrototypeString_def by blast
qed

lemma createPrototypeString_example:
  "map_sum id fst (createPrototypeString p5_core p5_X ''X'' (Some ''super$0'')
       [(''y'', \<lparr>raw = None, getter = Some ''y$get$0'', setter = None\<rparr>)])
     = Inr (''X.prototype = Object.create(super$0.prototype, {\"constructor\": {\"value\": X, \"configurable\": true, \"writable\": true}, y: {\"get\": y$get$0, \"configurable\": true, \"enumerable\": true} });DP$0(X, \"prototype\", {\"configurable\": false, \"enumerable\": false, \"writable\": false});'')"
  by code_simp

theorem createPrototypeString_ends_with_freeze_witness:
  "\<exists>wiring c'.
      createPrototypeString p5_core p5_X ''X'' (Some ''super$0'')
          [(''y'', \<lparr>raw = None, getter = Some ''y$get$0'', setter = None\<rparr>)] = Inr (wiring, c')
    \<and> wiring = ''X.prototype = Object.create(super$0.prototype, {\"constructor\": {\"value\": X, \"configurable\": true, \"writable\": true}, y: {\"get\": y$get$0, \"configurable\": true, \"enumerable\": true} });DP$0(X, \"prototype\", {\"configurable\": false, \"enumerable\": false, \"writable\": false});''
    \<and> (\<exists>prefix nscope DP.
           scope_of p5_core (nid (ninfo p5_X)) = Some nscope
         \<and> bubbledVariableDeclaration p5_core nscope ''DP'' ''Object.defineProperty'' False
             = Inr (DP, c')
         \<and> wiring = prefix @ DP @ ''('' @ ''X''
              @ '', \"prototype\", {\"configurable\": false, \"enumerable\": false, \"writable\": false});'')"
proof -
  let ?call = "createPrototypeString p5_core p5_X ''X'' (Some ''super$0'')
          [(''y'', \<lparr>raw = None, getter = Some ''y$get$0'', setter = None\<rparr>)]"
  from createPrototypeString_example obtain wiring c' where
    r: "?call = Inr (wiring, c')"
    and t: "wiring = ''X.prototype = Object.create(super$0.prototype, {\"constructor\": {\"value\": X, \"configurable\": true, \"writable\": true}, y: {\"get\": y$get$0, \"configurable\": true, \"enumerable\": true} });DP$0(X, \"prototype\", {\"configurable\": false, \"enumerable\": false, \"writable\": false});''"
    by (cases ?call) auto
  from createPrototypeString_ends_with_freeze [OF r] r t show ?thesis by blast
qed

text \<open>
  Claim C6, at the two classes of
  \<open>function b() { class X {} } function g() { function a() { class Y {} } }\<close>. The
  wiring of \<open>X\<close> is the call \<open>DP$0(X, "prototype", {...})\<close>, with the helper declared
  at the start of the body of \<open>b\<close> (position 14). The request from \<open>Y\<close> does not find
  \<open>DP$0\<close> from the scope of \<open>a\<close> and rebases the helper to the scope that
  \<open>findParentForScopes\<close> returns, the scope of \<open>g\<close>: the declaration in \<open>b\<close> is flagged
  inactive and the only active one stands at the start of the body of \<open>g\<close> (position 42,
  behind the end of \<open>b\<close>). The scope of \<open>g\<close> is not among the scopes from the class
  \<open>X\<close> outward, so the wiring of \<open>X\<close> calls an identifier that is not declared where
  \<open>X\<close> stands, and the prototype slot of \<open>X\<close> is not frozen.
\<close>

theorem createPrototypeString_helper_out_of_reach:
  "p5_wiring
     = Inr (''DP$0(X, \"prototype\", {\"configurable\": false, \"enumerable\": false, \"writable\": false});'',
            ''DP$0(Y, \"prototype\", {\"configurable\": false, \"enumerable\": false, \"writable\": false});'',
            [(14, ''var DP$0 = Object.defineProperty;'', False),
             (42, ''var DP$0 = Object.defineProperty;'', True)],
            Some p5_g_scope)
   \<and> scope_of p5_core (nid (ninfo p5_X)) = Some p5_b_body_scope
   \<and> p5_g_scope \<notin> set (scope_chain p5_b_body_scope)
   \<and> range1 (ninfo p5_b) < 42"
  by code_simp
section \<open>Properties of parameter lowering\<close>








end
